theory Spec2Isabelle
  imports Main "HOL-Library.Word"
begin

unbundle bit_operations_syntax

section \<open>CHIP-8 emulator: machine state\<close>

text \<open>
  The emulator (InstructionSet.h, InstructionSet.c, CHIP8Emulator.c) keeps the whole
  machine in global variables. The model bundles them in one record that every
  operation takes and returns. C types: \<open>u_int8_t\<close> is \<open>8 word\<close>, \<open>u_int16_t\<close>,
  \<open>address\<close> and \<open>instruction\<close> are \<open>16 word\<close>. Arithmetic that C performs after
  integer promotion (on \<open>int\<close>) is written on \<open>nat\<close> or \<open>int\<close> through \<open>unat\<close> and
  \<open>uint\<close>, and narrowed where the C assigns to a narrower variable.

  The arrays \<open>RAM\<close>, \<open>v\<close>, \<open>keys\<close> and \<open>screen\<close> are functions from the index; every
  subscript whose index is not bounded by a mask is checked against the declared size of
  the array, and a subscript beyond it yields \<open>UndefinedBehaviour\<close> (see below).

  The stack pointer \<open>sp\<close> is a C pointer (\<open>address*\<close>): the model keeps its numeric value,
  an absolute address. The address of \<open>RAM[0]\<close> is fixed by the linker and is not part of
  the source; the operations that use \<open>sp\<close> take it as the parameter \<open>base\<close>.
\<close>

type_synonym u8 = "8 word"
type_synonym u16 = "16 word"

definition STACK_UP :: nat where "STACK_UP = 0xEA0"
definition STACK_LOW :: nat where "STACK_LOW = 0xEBE"
definition SIZE_MEM :: nat where "SIZE_MEM = 4096"
definition SIZE_FS :: nat where "SIZE_FS = 80"
definition NUM_REGS :: nat where "NUM_REGS = 16"
definition NUM_KEYS :: nat where "NUM_KEYS = 16"
definition WIDTH :: nat where "WIDTH = 64"
definition HEIGHT :: nat where "HEIGHT = 32"

record chip8 =
  RAM :: "nat \<Rightarrow> u8"
  PC :: u16
  I :: u16
  v :: "nat \<Rightarrow> u8"
  keys :: "nat \<Rightarrow> u8"
  sp :: nat
  screen :: "nat \<Rightarrow> u8"
  delay_timer :: u8
  sound_timer :: u8
  draw :: u8

text \<open>
  The ways a call can end without returning normally. The first four are the
  \<open>exit(EXIT_FAILURE)\<close> paths of the source, named after the message printed before them.
  \<open>UndefinedBehaviour\<close> is not an error the emulator detects: it marks that the C code
  performed an array access outside the array (the source has no check there, the access
  happens, and the C standard leaves its effect undefined).
\<close>

datatype fault =
    StackOverflow
  | EmptyStack
  | UnknownInstruction u16 u16
  | ErrorReadingROM
  | UndefinedBehaviour

text \<open>A fault that the emulator itself detects and reports before \<open>exit\<close>.\<close>

fun reported :: "fault + 'a \<Rightarrow> bool" where
  "reported (Inl UndefinedBehaviour) = False"
| "reported (Inl e) = True"
| "reported (Inr x) = False"

text \<open>The fault a call ends in, and a component of the state it returns, when it returns.\<close>

fun fault_of :: "fault + 'a \<Rightarrow> fault option" where
  "fault_of (Inl e) = Some e"
| "fault_of (Inr x) = None"

fun result_of :: "(chip8 \<Rightarrow> 'a) \<Rightarrow> fault + chip8 \<Rightarrow> 'a option" where
  "result_of f (Inl e) = None"
| "result_of f (Inr s) = Some (f s)"

section \<open>Instruction fields (the macros of InstructionSet.h)\<close>

definition INSTR :: "u8 \<Rightarrow> u8 \<Rightarrow> u16" where
  "INSTR pc pc_next = push_bit 8 (ucast pc) OR ucast pc_next"

definition VX :: "u16 \<Rightarrow> nat" where
  "VX instr = unat (drop_bit 8 (instr AND 0xF00))"

definition VY :: "u16 \<Rightarrow> nat" where
  "VY instr = unat (drop_bit 4 (instr AND 0xF0))"

definition ADDR :: "u16 \<Rightarrow> u16" where
  "ADDR instr = instr AND 0xFFF"

definition BYTE :: "u16 \<Rightarrow> u16" where
  "BYTE instr = instr AND 0xFF"

definition LSN :: "u16 \<Rightarrow> u16" where
  "LSN instr = instr AND 0xF"

definition MSN :: "u16 \<Rightarrow> u16" where
  "MSN instr = drop_bit 12 (instr AND 0xF000)"

definition MSBR :: "u8 \<Rightarrow> u8" where
  "MSBR x = drop_bit 7 x"

definition LSBI :: "u8 \<Rightarrow> u8" where
  "LSBI x = x AND 0x1"

definition font_set :: "u8 list" where
  "font_set =
    [0xF0, 0x90, 0x90, 0x90, 0xF0,
     0x20, 0x60, 0x20, 0x20, 0x70,
     0xF0, 0x10, 0xF0, 0x80, 0xF0,
     0xF0, 0x10, 0xF0, 0x10, 0xF0,
     0x90, 0x90, 0xF0, 0x10, 0x10,
     0xF0, 0x80, 0xF0, 0x10, 0xF0,
     0xF0, 0x80, 0xF0, 0x90, 0xF0,
     0xF0, 0x10, 0x20, 0x40, 0x40,
     0xF0, 0x90, 0xF0, 0x90, 0xF0,
     0xF0, 0x90, 0xF0, 0x10, 0xF0,
     0xF0, 0x90, 0xF0, 0x90, 0x90,
     0xE0, 0x90, 0xE0, 0x90, 0xE0,
     0xF0, 0x80, 0x80, 0x80, 0xF0,
     0xE0, 0x90, 0x90, 0x90, 0xE0,
     0xF0, 0x80, 0xF0, 0x80, 0xF0,
     0xF0, 0x80, 0xF0, 0x80, 0x80]"

section \<open>Array subscripts and loops\<close>

text \<open>\<open>RAM[a]\<close> as an rvalue and as an lvalue, for an index \<open>a\<close> computed on \<open>int\<close>.\<close>

definition RAM_read :: "nat \<Rightarrow> chip8 \<Rightarrow> fault + u8" where
  "RAM_read a s = (if a < SIZE_MEM then Inr (RAM s a) else Inl UndefinedBehaviour)"

definition RAM_write :: "nat \<Rightarrow> u8 \<Rightarrow> chip8 \<Rightarrow> fault + chip8" where
  "RAM_write a x s =
     (if a < SIZE_MEM then Inr (s\<lparr>RAM := (RAM s)(a := x)\<rparr>) else Inl UndefinedBehaviour)"

text \<open>
  A \<open>for\<close> loop whose counter runs through the given values, with a body that may
  fault: the first fault ends the loop.
\<close>

primrec for_each :: "nat list \<Rightarrow> (nat \<Rightarrow> 's \<Rightarrow> fault + 's) \<Rightarrow> 's \<Rightarrow> fault + 's" where
  "for_each [] body s = Inr s"
| "for_each (j # js) body s =
     (case body j s of Inl e \<Rightarrow> Inl e | Inr s' \<Rightarrow> for_each js body s')"

text \<open>
  The 16-bit value behind an \<open>address*\<close> that points at offset \<open>a\<close> of \<open>RAM\<close>, as a
  little-endian host (x86, the SDL target) stores it.
\<close>

definition load16 :: "(nat \<Rightarrow> u8) \<Rightarrow> nat \<Rightarrow> u16" where
  "load16 m a = push_bit 8 (ucast (m (a + 1))) OR ucast (m a)"

definition store16 :: "(nat \<Rightarrow> u8) \<Rightarrow> nat \<Rightarrow> u16 \<Rightarrow> (nat \<Rightarrow> u8)" where
  "store16 m a x = m(a := ucast x, a + 1 := ucast (drop_bit 8 x))"

section \<open>InstructionSet.c\<close>

text \<open>
  \<open>push\<close> compares the pointer \<open>sp\<close> with the integer constant \<open>STACK_UP\<close> cast to a
  pointer, that is with the absolute address \<open>0xEA0\<close>, then stores through \<open>sp\<close> and
  moves it down by one \<open>address\<close> (two bytes). The store is inside \<open>RAM\<close> when
  \<open>base \<le> sp\<close> and \<open>sp + 1 < base + SIZE_MEM\<close>.
\<close>

definition push :: "nat \<Rightarrow> u16 \<Rightarrow> chip8 \<Rightarrow> fault + chip8" where
  "push base addr s =
     (if sp s < STACK_UP then Inl StackOverflow
      else if base \<le> sp s \<and> sp s + 1 < base + SIZE_MEM
      then Inr (s\<lparr>RAM := store16 (RAM s) (sp s - base) addr, sp := sp s - 2\<rparr>)
      else Inl UndefinedBehaviour)"

definition pop :: "nat \<Rightarrow> chip8 \<Rightarrow> fault + (u16 \<times> chip8)" where
  "pop base s =
     (if sp s = STACK_LOW then Inl EmptyStack
      else if base \<le> sp s + 2 \<and> sp s + 2 + 1 < base + SIZE_MEM
      then Inr (load16 (RAM s) (sp s + 2 - base), s\<lparr>sp := sp s + 2\<rparr>)
      else Inl UndefinedBehaviour)"

definition CLS :: "chip8 \<Rightarrow> chip8" where
  "CLS s = s\<lparr>screen := (\<lambda>k. if k < WIDTH * HEIGHT then 0 else screen s k)\<rparr>"

definition RET :: "nat \<Rightarrow> chip8 \<Rightarrow> fault + chip8" where
  "RET base s =
     (case pop base s of Inl e \<Rightarrow> Inl e | Inr (a, s') \<Rightarrow> Inr (s'\<lparr>PC := a + 2\<rparr>))"

definition JP :: "u16 \<Rightarrow> chip8 \<Rightarrow> chip8" where
  "JP i s = s\<lparr>PC := ADDR i\<rparr>"

definition CALL :: "nat \<Rightarrow> u16 \<Rightarrow> chip8 \<Rightarrow> fault + chip8" where
  "CALL base i s =
     (case push base (PC s - 2) s of Inl e \<Rightarrow> Inl e | Inr s' \<Rightarrow> Inr (s'\<lparr>PC := ADDR i\<rparr>))"

definition SE :: "u16 \<Rightarrow> chip8 \<Rightarrow> chip8" where
  "SE i s = (if unat (v s (VX i)) = unat (BYTE i) then s\<lparr>PC := PC s + 2\<rparr> else s)"

definition SNEI :: "u16 \<Rightarrow> chip8 \<Rightarrow> chip8" where
  "SNEI i s = (if unat (v s (VX i)) \<noteq> unat (BYTE i) then s\<lparr>PC := PC s + 2\<rparr> else s)"

definition SR :: "u16 \<Rightarrow> chip8 \<Rightarrow> chip8" where
  "SR i s = (if v s (VX i) = v s (VY i) then s\<lparr>PC := PC s + 2\<rparr> else s)"

definition LDB :: "u16 \<Rightarrow> chip8 \<Rightarrow> chip8" where
  "LDB i s = s\<lparr>v := (v s)(VX i := ucast (BYTE i))\<rparr>"

definition ADDI :: "u16 \<Rightarrow> chip8 \<Rightarrow> chip8" where
  "ADDI i s = s\<lparr>v := (v s)(VX i := v s (VX i) + ucast (BYTE i))\<rparr>"

definition LDR :: "u16 \<Rightarrow> chip8 \<Rightarrow> chip8" where
  "LDR i s = s\<lparr>v := (v s)(VX i := v s (VY i))\<rparr>"

definition OR_instr :: "u16 \<Rightarrow> chip8 \<Rightarrow> chip8" where
  "OR_instr i s = s\<lparr>v := (v s)(VX i := v s (VX i) OR v s (VY i))\<rparr>"

definition AND_instr :: "u16 \<Rightarrow> chip8 \<Rightarrow> chip8" where
  "AND_instr i s = s\<lparr>v := (v s)(VX i := v s (VX i) AND v s (VY i))\<rparr>"

definition XOR_instr :: "u16 \<Rightarrow> chip8 \<Rightarrow> chip8" where
  "XOR_instr i s = s\<lparr>v := (v s)(VX i := v s (VX i) XOR v s (VY i))\<rparr>"

text \<open>
  The arithmetic instructions are two assignments in sequence: first \<open>v[0xF]\<close>, then
  \<open>v[VX(i)]\<close>, whose right-hand side reads the registers after the first assignment.
\<close>

definition ADD :: "u16 \<Rightarrow> chip8 \<Rightarrow> chip8" where
  "ADD i s =
     (let s1 = s\<lparr>v := (v s)(0xF := (if uint (v s (VX i)) > 0xFF - uint (v s (VY i)) then 1 else 0))\<rparr>
      in s1\<lparr>v := (v s1)(VX i := v s1 (VX i) + v s1 (VY i))\<rparr>)"

definition SUB :: "u16 \<Rightarrow> chip8 \<Rightarrow> chip8" where
  "SUB i s =
     (let s1 = s\<lparr>v := (v s)(0xF := (if v s (VY i) > v s (VX i) then 0 else 1))\<rparr>
      in s1\<lparr>v := (v s1)(VX i := v s1 (VX i) - v s1 (VY i))\<rparr>)"

definition SHR :: "u16 \<Rightarrow> chip8 \<Rightarrow> chip8" where
  "SHR i s =
     (let s1 = s\<lparr>v := (v s)(0xF := LSBI (v s (VX i)))\<rparr>
      in s1\<lparr>v := (v s1)(VX i := drop_bit 1 (v s1 (VX i)))\<rparr>)"

definition SUBN :: "u16 \<Rightarrow> chip8 \<Rightarrow> chip8" where
  "SUBN i s =
     (let s1 = s\<lparr>v := (v s)(0xF := (if v s (VX i) > v s (VY i) then 0 else 1))\<rparr>
      in s1\<lparr>v := (v s1)(VX i := v s1 (VY i) - v s1 (VX i))\<rparr>)"

definition SHL :: "u16 \<Rightarrow> chip8 \<Rightarrow> chip8" where
  "SHL i s =
     (let s1 = s\<lparr>v := (v s)(0xF := MSBR (v s (VX i)))\<rparr>
      in s1\<lparr>v := (v s1)(VX i := push_bit 1 (v s1 (VX i)))\<rparr>)"

definition SNE :: "u16 \<Rightarrow> chip8 \<Rightarrow> chip8" where
  "SNE i s = (if v s (VX i) \<noteq> v s (VY i) then s\<lparr>PC := PC s + 2\<rparr> else s)"

definition LDI :: "u16 \<Rightarrow> chip8 \<Rightarrow> chip8" where
  "LDI i s = s\<lparr>I := ADDR i\<rparr>"

definition JPR :: "u16 \<Rightarrow> chip8 \<Rightarrow> chip8" where
  "JPR i s = s\<lparr>PC := ADDR i + ucast (v s 0x0)\<rparr>"

text \<open>\<open>r\<close> is the value that the call of \<open>rand()\<close> returns (non-negative).\<close>

definition RND :: "nat \<Rightarrow> u16 \<Rightarrow> chip8 \<Rightarrow> chip8" where
  "RND r i s = s\<lparr>v := (v s)(VX i := of_nat (r mod 256) AND ucast (BYTE i))\<rparr>"

text \<open>
  The body of the inner loop of \<open>DRW\<close>: the test of bit \<open>0x80 >> x\<close> of the sprite row
  \<open>p\<close>, the collision test and the toggle, both through \<open>screen[x + Vx + (y + Vy) * WIDTH]\<close>.
\<close>

definition DRW_pixel :: "u8 \<Rightarrow> u8 \<Rightarrow> nat \<Rightarrow> u8 \<Rightarrow> nat \<Rightarrow> chip8 \<Rightarrow> fault + chip8" where
  "DRW_pixel Vx Vy y p x s =
     (if p AND drop_bit x 0x80 \<noteq> 0 then
        (let k = x + unat Vx + (y + unat Vy) * WIDTH in
         if k < WIDTH * HEIGHT then
           (let s1 = (if screen s k \<noteq> 0 then s\<lparr>v := (v s)(0xF := 1)\<rparr> else s)
            in Inr (s1\<lparr>screen := (screen s1)(k := screen s1 k XOR 1)\<rparr>))
         else Inl UndefinedBehaviour)
      else Inr s)"

definition DRW_row :: "u8 \<Rightarrow> u8 \<Rightarrow> nat \<Rightarrow> chip8 \<Rightarrow> fault + chip8" where
  "DRW_row Vx Vy y s =
     (case RAM_read (unat (I s) + y) s of
        Inl e \<Rightarrow> Inl e
      | Inr p \<Rightarrow> for_each [0..<8] (DRW_pixel Vx Vy y p) s)"

definition DRW :: "u16 \<Rightarrow> chip8 \<Rightarrow> fault + chip8" where
  "DRW i s =
     (let Vx = v s (VX i); Vy = v s (VY i); height = (ucast (LSN i) :: u8);
          s0 = s\<lparr>v := (v s)(0xF := 0)\<rparr>
      in for_each [0..<unat height] (DRW_row Vx Vy) s0)"

definition SKP :: "u16 \<Rightarrow> chip8 \<Rightarrow> fault + chip8" where
  "SKP i s =
     (let k = unat (v s (VX i)) in
      if k < NUM_KEYS then Inr (if keys s k \<noteq> 0 then s\<lparr>PC := PC s + 2\<rparr> else s)
      else Inl UndefinedBehaviour)"

definition SKNP :: "u16 \<Rightarrow> chip8 \<Rightarrow> fault + chip8" where
  "SKNP i s =
     (let k = unat (v s (VX i)) in
      if k < NUM_KEYS then Inr (if keys s k = 0 then s\<lparr>PC := PC s + 2\<rparr> else s)
      else Inl UndefinedBehaviour)"

definition LDD :: "u16 \<Rightarrow> chip8 \<Rightarrow> chip8" where
  "LDD i s = s\<lparr>v := (v s)(VX i := delay_timer s)\<rparr>"

text \<open>
  \<open>LDK\<close> returns from inside its loop at the first \<open>j\<close> with \<open>keys[j]\<close> set; when the
  loop ends without one, the instruction is repeated.
\<close>

definition LDK :: "u16 \<Rightarrow> chip8 \<Rightarrow> chip8" where
  "LDK i s =
     (case find (\<lambda>j. keys s j \<noteq> 0) [0..<NUM_REGS] of
        Some j \<Rightarrow> s\<lparr>v := (v s)(VX i := of_nat j)\<rparr>
      | None \<Rightarrow> s\<lparr>PC := PC s - 2\<rparr>)"

definition STD :: "u16 \<Rightarrow> chip8 \<Rightarrow> chip8" where
  "STD i s = s\<lparr>delay_timer := v s (VX i)\<rparr>"

definition STS :: "u16 \<Rightarrow> chip8 \<Rightarrow> chip8" where
  "STS i s = s\<lparr>sound_timer := v s (VX i)\<rparr>"

definition IINC :: "u16 \<Rightarrow> chip8 \<Rightarrow> chip8" where
  "IINC i s =
     (let s1 = s\<lparr>v := (v s)(0xF := (if unat (I s) + unat (v s (VX i)) > 0xFFF then 1 else 0))\<rparr>
      in s1\<lparr>I := I s1 + ucast (v s1 (VX i))\<rparr>)"

definition LDF :: "u16 \<Rightarrow> chip8 \<Rightarrow> chip8" where
  "LDF i s = s\<lparr>I := of_nat (unat (v s (VX i)) * 5)\<rparr>"

definition BCD :: "u16 \<Rightarrow> chip8 \<Rightarrow> fault + chip8" where
  "BCD i s =
     (case RAM_write (unat (I s)) (of_nat (unat (v s (VX i)) div 100)) s of
        Inl e \<Rightarrow> Inl e
      | Inr s1 \<Rightarrow>
          (case RAM_write (unat (I s1) + 1) (of_nat ((unat (v s1 (VX i)) div 10) mod 10)) s1 of
             Inl e \<Rightarrow> Inl e
           | Inr s2 \<Rightarrow>
               RAM_write (unat (I s2) + 2) (of_nat ((unat (v s2 (VX i)) mod 100) mod 10)) s2))"

definition STA :: "u16 \<Rightarrow> chip8 \<Rightarrow> fault + chip8" where
  "STA i s = for_each [0..<VX i + 1] (\<lambda>j s. RAM_write (unat (I s) + j) (v s j) s) s"

definition LDA :: "u16 \<Rightarrow> chip8 \<Rightarrow> fault + chip8" where
  "LDA i s =
     for_each [0..<VX i + 1]
       (\<lambda>j s. case RAM_read (unat (I s) + j) s of
                 Inl e \<Rightarrow> Inl e
               | Inr x \<Rightarrow> Inr (s\<lparr>v := (v s)(j := x)\<rparr>)) s"

section \<open>CHIP8Emulator.c\<close>

text \<open>
  \<open>initialize\<close> assigns every global. The \<open>memset\<close> and \<open>memcpy\<close> calls cover exactly
  the declared size of their array.
\<close>

definition initialize :: "nat \<Rightarrow> chip8 \<Rightarrow> chip8" where
  "initialize base s =
     (let s1 = s\<lparr>PC := 0x200, I := 0, sp := base + STACK_LOW\<rparr>;
          s2 = s1\<lparr>v := (\<lambda>j. if j < NUM_REGS then 0 else v s1 j)\<rparr>;
          s3 = s2\<lparr>keys := (\<lambda>j. if j < NUM_KEYS then 0 else keys s2 j)\<rparr>;
          s4 = CLS s3;
          s5 = s4\<lparr>RAM := (\<lambda>a. if a < SIZE_MEM then 0 else RAM s4 a)\<rparr>;
          s6 = s5\<lparr>RAM := (\<lambda>a. if a < SIZE_FS then font_set ! a else RAM s5 a)\<rparr>
      in s6\<lparr>delay_timer := 0, sound_timer := 0, draw := 0\<rparr>)"

text \<open>
  \<open>load_source\<close>, with the contents of the ROM file as the parameter \<open>rom\<close>: \<open>fread\<close>
  copies at most \<open>0xCA0\<close> bytes to \<open>RAM + 0x200\<close> and the emulator exits when it read
  none.
\<close>

definition load_source :: "u8 list \<Rightarrow> chip8 \<Rightarrow> fault + chip8" where
  "load_source rom s =
     (let n = min (length rom) 0xCA0 in
      if n = 0 then Inl ErrorReadingROM
      else Inr (s\<lparr>RAM := (\<lambda>a. if 0x200 \<le> a \<and> a < 0x200 + n then rom ! (a - 0x200)
                                 else RAM s a)\<rparr>))"

definition fetch :: "chip8 \<Rightarrow> fault + (u16 \<times> chip8)" where
  "fetch s =
     (case RAM_read (unat (PC s)) s of
        Inl e \<Rightarrow> Inl e
      | Inr hi \<Rightarrow>
          (case RAM_read (unat (PC s) + 1) s of
             Inl e \<Rightarrow> Inl e
           | Inr lo \<Rightarrow> Inr (INSTR hi lo, s\<lparr>PC := PC s + 2\<rparr>)))"

text \<open>
  The decoder: the outer \<open>switch\<close> on the most significant nibble, the inner ones on
  the least significant nibble or byte. Every path that leaves the \<open>switch\<close> reaches the
  "Unknown instruction" exit, which reports \<open>PC - 2\<close> and the instruction.
\<close>

definition execute :: "nat \<Rightarrow> nat \<Rightarrow> u16 \<Rightarrow> chip8 \<Rightarrow> fault + chip8" where
  "execute base r i s =
     (let msn = (ucast (MSN i) :: u8); lsn = (ucast (LSN i) :: u8);
          unknown = Inl (UnknownInstruction (PC s - 2) i)
      in
      if msn = 0x0 then
        (if i = 0x00E0 then Inr (CLS s)
         else if i = 0x00EE then RET base s
         else unknown)
      else if msn = 0x1 then Inr (JP i s)
      else if msn = 0x2 then CALL base i s
      else if msn = 0x3 then Inr (SE i s)
      else if msn = 0x4 then Inr (SNEI i s)
      else if msn = 0x5 then (if lsn = 0 then Inr (SR i s) else unknown)
      else if msn = 0x6 then Inr (LDB i s)
      else if msn = 0x7 then Inr (ADDI i s)
      else if msn = 0x8 then
        (if lsn = 0x0 then Inr (LDR i s)
         else if lsn = 0x1 then Inr (OR_instr i s)
         else if lsn = 0x2 then Inr (AND_instr i s)
         else if lsn = 0x3 then Inr (XOR_instr i s)
         else if lsn = 0x4 then Inr (ADD i s)
         else if lsn = 0x5 then Inr (SUB i s)
         else if lsn = 0x6 then Inr (SHR i s)
         else if lsn = 0x7 then Inr (SUBN i s)
         else if lsn = 0xE then Inr (SHL i s)
         else unknown)
      else if msn = 0x9 then (if lsn = 0 then Inr (SNE i s) else unknown)
      else if msn = 0xA then Inr (LDI i s)
      else if msn = 0xB then Inr (JPR i s)
      else if msn = 0xC then Inr (RND r i s)
      else if msn = 0xD then
        (case DRW i s of Inl e \<Rightarrow> Inl e | Inr s' \<Rightarrow> Inr (s'\<lparr>draw := 1\<rparr>))
      else if msn = 0xE then
        (if BYTE i = 0x9E then SKP i s
         else if BYTE i = 0xA1 then SKNP i s
         else unknown)
      else if msn = 0xF then
        (if BYTE i = 0x07 then Inr (LDD i s)
         else if BYTE i = 0x0A then Inr (LDK i s)
         else if BYTE i = 0x15 then Inr (STD i s)
         else if BYTE i = 0x18 then Inr (STS i s)
         else if BYTE i = 0x1E then Inr (IINC i s)
         else if BYTE i = 0x29 then Inr (LDF i s)
         else if BYTE i = 0x33 then BCD i s
         else if BYTE i = 0x55 then STA i s
         else if BYTE i = 0x65 then LDA i s
         else unknown)
      else unknown)"

text \<open>One fetch-decode-execute step, the \<open>execute(fetch())\<close> of \<open>run\<close>.\<close>

definition step :: "nat \<Rightarrow> nat \<Rightarrow> chip8 \<Rightarrow> fault + chip8" where
  "step base r s =
     (case fetch s of Inl e \<Rightarrow> Inl e | Inr (i, s') \<Rightarrow> execute base r i s')"

text \<open>
  The globals of a C program start zeroed; \<open>main\<close> calls \<open>initialize\<close> and
  \<open>load_source\<close> before \<open>run\<close>.
\<close>

definition boot :: chip8 where
  "boot = \<lparr>RAM = (\<lambda>a. 0), PC = 0, I = 0, v = (\<lambda>j. 0), keys = (\<lambda>j. 0), sp = 0,
           screen = (\<lambda>k. 0), delay_timer = 0, sound_timer = 0, draw = 0\<rparr>"

definition loaded :: "nat \<Rightarrow> u8 list \<Rightarrow> fault + chip8" where
  "loaded base rom = load_source rom (initialize base boot)"

text \<open>
  Several steps in a row, one for each element of \<open>rs\<close> (the values \<open>rand()\<close> would
  return), and several pushes in a row.
\<close>

primrec steps :: "nat \<Rightarrow> nat list \<Rightarrow> chip8 \<Rightarrow> fault + chip8" where
  "steps base [] s = Inr s"
| "steps base (r # rs) s =
     (case step base r s of Inl e \<Rightarrow> Inl e | Inr s' \<Rightarrow> steps base rs s')"

definition run_rom :: "nat \<Rightarrow> u8 list \<Rightarrow> nat list \<Rightarrow> fault + chip8" where
  "run_rom base rom rs =
     (case loaded base rom of Inl e \<Rightarrow> Inl e | Inr s \<Rightarrow> steps base rs s)"

primrec push_all :: "nat \<Rightarrow> u16 list \<Rightarrow> chip8 \<Rightarrow> fault + chip8" where
  "push_all base [] s = Inr s"
| "push_all base (a # as) s =
     (case push base a s of Inl e \<Rightarrow> Inl e | Inr s' \<Rightarrow> push_all base as s')"

text \<open>The address at the top of the stack: what \<open>pop\<close> would read through \<open>++sp\<close>.\<close>

definition stack_top :: "nat \<Rightarrow> chip8 \<Rightarrow> u16" where
  "stack_top base s = load16 (RAM s) (sp s + 2 - base)"

text \<open>
  What \<open>run\<close> does around each step. \<open>_set_keys\<close>, when Escape is not down (with it
  the emulator ends with \<open>EXIT_SUCCESS\<close>), copies the host's key state into \<open>keys\<close>;
  \<open>pressed j\<close> stands for \<open>pressed[emulator_keys[j]]\<close>. After a draw \<open>run\<close> clears the
  \<open>draw\<close> flag, and after every 20 steps it calls \<open>_decrement_timers\<close>.
\<close>

definition set_keys :: "(nat \<Rightarrow> u8) \<Rightarrow> chip8 \<Rightarrow> chip8" where
  "set_keys pressed s = s\<lparr>keys := (\<lambda>j. if j < NUM_KEYS then pressed j else keys s j)\<rparr>"

definition decrement_timers :: "chip8 \<Rightarrow> chip8" where
  "decrement_timers s =
     (let s1 = (if delay_timer s > 0 then s\<lparr>delay_timer := delay_timer s - 1\<rparr> else s)
      in if sound_timer s1 > 0 then s1\<lparr>sound_timer := sound_timer s1 - 1\<rparr> else s1)"

text \<open>
  The instructions that assign \<open>PC\<close> from an operand or from the stack: \<open>RET\<close>, \<open>JP\<close>,
  \<open>CALL\<close> and \<open>JPR\<close>; and the condition that such a transfer has landed on an even
  address within \<open>[0x200, 4094]\<close> (for \<open>JP\<close> and \<open>CALL\<close>: that the operand is one).
\<close>

definition transfers :: "u16 \<Rightarrow> bool" where
  "transfers i \<longleftrightarrow> i = 0x00EE \<or> MSN i = 0x1 \<or> MSN i = 0x2 \<or> MSN i = 0xB"

definition lands_in_range :: "chip8 \<Rightarrow> bool" where
  "lands_in_range s \<longleftrightarrow> even (unat (PC s)) \<and> 0x200 \<le> unat (PC s) \<and> unat (PC s) \<le> 4094"

text \<open>
  The states that a run reaches from a loaded machine without a fault, when every control
  transfer it executes lands in range. Key writes, steps, the clearing of the draw flag
  and timer ticks may follow each other in any order, which covers the order \<open>run\<close>
  gives them.
\<close>

inductive reachable :: "nat \<Rightarrow> u8 list \<Rightarrow> chip8 \<Rightarrow> bool" for base :: nat and rom :: "u8 list" where
  loaded_state: "loaded base rom = Inr s \<Longrightarrow> reachable base rom s"
| keys_written: "reachable base rom s \<Longrightarrow> reachable base rom (set_keys pressed s)"
| stepped: "reachable base rom s \<Longrightarrow> fetch s = Inr (i, t) \<Longrightarrow> execute base r i t = Inr s' \<Longrightarrow>
         (transfers i \<longrightarrow> lands_in_range s') \<Longrightarrow> reachable base rom s'"
| frame_shown: "reachable base rom s \<Longrightarrow> reachable base rom (s\<lparr>draw := 0\<rparr>)"
| timers_ticked: "reachable base rom s \<Longrightarrow> reachable base rom (decrement_timers s)"

text \<open>
  The framebuffer is read row by row (\<open>refresh_screen\<close> shows \<open>screen[x + y * WIDTH]\<close> at
  column \<open>x\<close> and row \<open>y\<close>). \<open>sprite_bit s y x\<close> says that column \<open>x\<close> of row \<open>y\<close> of the
  sprite at \<open>I\<close> is set, tested as \<open>DRW\<close> tests it.
\<close>

definition pixel :: "nat \<Rightarrow> nat \<Rightarrow> chip8 \<Rightarrow> u8" where
  "pixel col row s = screen s (col + row * WIDTH)"

definition sprite_bit :: "chip8 \<Rightarrow> nat \<Rightarrow> nat \<Rightarrow> bool" where
  "sprite_bit s y x \<longleftrightarrow> RAM s (unat (I s) + y) AND drop_bit x 0x80 \<noteq> 0"

section \<open>Example machines\<close>

text \<open>
  Concrete states for the instances below. \<open>0x6010a0\<close> stands for the address of \<open>RAM\<close>
  in a non-relocated x86-64 Linux executable; any address above the first page behaves the same.
\<close>

definition glyph_demo :: chip8 where
  "glyph_demo = (initialize 0x6010a0 boot)\<lparr>v := (\<lambda>j. 7)\<rparr>"

definition block_demo :: chip8 where
  "block_demo = boot\<lparr>I := 0x300, v := (\<lambda>j. 9)\<rparr>"

text \<open>
  A reset machine with a program in \<open>RAM\<close>: \<open>CALL 0x204\<close> at \<open>0x200\<close> and \<open>RET\<close> at
  \<open>0x204\<close>.
\<close>

definition call_rom :: "u8 list" where
  "call_rom = [0x22, 0x04, 0x00, 0x00, 0x00, 0xEE]"

definition call_demo :: chip8 where
  "call_demo = (initialize 0x6010a0 boot)
     \<lparr>RAM := (RAM (initialize 0x6010a0 boot))(0x200 := 0x22, 0x201 := 0x04, 0x204 := 0x00, 0x205 := 0xEE)\<rparr>"

definition seventeen :: "u16 list" where
  "seventeen = [0x200, 0x202, 0x204, 0x206, 0x208, 0x20A, 0x20C, 0x20E, 0x210,
                0x212, 0x214, 0x216, 0x218, 0x21A, 0x21C, 0x21E, 0x220]"

text \<open>A reset machine with the wait-for-key instruction \<open>LD V3,K\<close> at \<open>0x200\<close>.\<close>

definition key_demo :: chip8 where
  "key_demo = (initialize 0x6010a0 boot)
     \<lparr>RAM := (RAM (initialize 0x6010a0 boot))(0x200 := 0xF3, 0x201 := 0x0A)\<rparr>"

definition key_pressed_demo :: chip8 where
  "key_pressed_demo = key_demo\<lparr>keys := (keys key_demo)(5 := 1, 9 := 1)\<rparr>"

text \<open>
  A program that jumps to address 1; the program \<open>JP 0x204; (unused); LD V0,5\<close> and the
  machine that \<open>main\<close> has built from it when \<open>run\<close> starts; and a program that stores
  the instruction \<open>SE V0,0x30\<close> at \<open>0xFFE\<close> and jumps there:
  \<open>LD I,0xFFE; LD V0,0x30; LD V1,0x30; LD [I],V1; JP 0xFFE\<close>; and the program
  \<open>LD V0,0xFE; JP V0,0xFFE\<close>.
\<close>

definition jump_rom :: "u8 list" where
  "jump_rom = [0x10, 0x01]"

definition hop_rom :: "u8 list" where
  "hop_rom = [0x12, 0x04, 0x00, 0x00, 0x60, 0x05]"

definition hop_demo :: chip8 where
  "hop_demo = (case loaded 0x6010a0 hop_rom of Inr s \<Rightarrow> s | Inl e \<Rightarrow> boot)"

definition last_word_rom :: "u8 list" where
  "last_word_rom = [0xAF, 0xFE, 0x60, 0x30, 0x61, 0x30, 0xF1, 0x55, 0x1F, 0xFE]"

definition far_rom :: "u8 list" where
  "far_rom = [0x60, 0xFE, 0xBF, 0xFE]"

text \<open>
  A reset machine about to draw the glyph of digit 0 (\<open>I = 0\<close>) with \<open>V0 = 62\<close> and
  \<open>V1 = 0\<close>, near the right edge; the same with \<open>V0 = 0\<close> and \<open>V1 = 32\<close>, below the
  last row; and with \<open>V0 = 10\<close> and \<open>V1 = 20\<close>, inside the grid.
\<close>

definition draw_edge_demo :: chip8 where
  "draw_edge_demo = (initialize 0x6010a0 boot)\<lparr>v := (\<lambda>j. 0)(0 := 62)\<rparr>"

definition draw_bottom_demo :: chip8 where
  "draw_bottom_demo = (initialize 0x6010a0 boot)\<lparr>v := (\<lambda>j. 0)(1 := 32)\<rparr>"

definition draw_demo :: chip8 where
  "draw_demo = (initialize 0x6010a0 boot)\<lparr>v := (\<lambda>j. 0)(0 := 10, 1 := 20)\<rparr>"

text \<open>A machine with \<open>V2 = 255\<close> and \<open>I\<close> at the last but one byte of \<open>RAM\<close>, and with \<open>I = 0x300\<close>.\<close>

definition bcd_edge_demo :: chip8 where
  "bcd_edge_demo = boot\<lparr>I := 0xFFE, v := (\<lambda>j. 0)(2 := 255)\<rparr>"

definition bcd_demo :: chip8 where
  "bcd_demo = boot\<lparr>I := 0x300, v := (\<lambda>j. 0)(2 := 255)\<rparr>"

section \<open>Loops\<close>

lemma for_each_append:
  "for_each (xs @ ys) body s =
     (case for_each xs body s of Inl e \<Rightarrow> Inl e | Inr s' \<Rightarrow> for_each ys body s')"
  by (induction xs arbitrary: s) (auto split: sum.splits)

text \<open>A property that every successful run of the body keeps is kept by the loop.\<close>

lemma for_each_invariant:
  assumes "for_each js body s = Inr s'" and "P s"
    and "\<And>j t t'. j \<in> set js \<Longrightarrow> P t \<Longrightarrow> body j t = Inr t' \<Longrightarrow> P t'"
  shows "P s'"
  using assms
proof (induction js arbitrary: s)
  case Nil
  then show ?case by simp
next
  case (Cons j js)
  from Cons.prems(1) obtain t where t: "body j s = Inr t" "for_each js body t = Inr s'"
    by (auto split: sum.splits)
  have "P t" using Cons.prems(2) Cons.prems(3)[of j s t] t(1) by simp
  moreover have "\<And>k u u'. k \<in> set js \<Longrightarrow> P u \<Longrightarrow> body k u = Inr u' \<Longrightarrow> P u'"
    using Cons.prems(3) by (meson list.set_intros(2))
  ultimately show ?case using Cons.IH[OF t(2)] by blast
qed

text \<open>The loop completes when its body completes on every state that satisfies an invariant.\<close>

lemma for_each_succeeds:
  assumes "P s"
    and "\<And>j t. j \<in> set js \<Longrightarrow> P t \<Longrightarrow> \<exists>t'. body j t = Inr t' \<and> P t'"
  shows "\<exists>s'. for_each js body s = Inr s'"
  using assms
proof (induction js arbitrary: s)
  case Nil
  then show ?case by simp
next
  case (Cons j js)
  from Cons.prems obtain t' where t: "body j s = Inr t'" "P t'" by fastforce
  from Cons.IH[OF t(2)] Cons.prems(2) obtain s' where "for_each js body t' = Inr s'" by auto
  with t show ?case by simp
qed

section \<open>Register-block transfers and the index register\<close>

lemma STA_I: "STA i s = Inr s' \<Longrightarrow> I s' = I s"
  unfolding STA_def
  by (erule for_each_invariant[where P = "\<lambda>t. I t = I s"])
     (auto simp: RAM_write_def split: if_splits)

lemma LDA_I: "LDA i s = Inr s' \<Longrightarrow> I s' = I s"
  unfolding LDA_def
  by (erule for_each_invariant[where P = "\<lambda>t. I t = I s"])
     (auto simp: RAM_read_def split: if_splits sum.splits)

lemma STA_succeeds: "unat (I s) + VX i < SIZE_MEM \<Longrightarrow> \<exists>t. STA i s = Inr t"
  unfolding STA_def
  by (rule for_each_succeeds[where P = "\<lambda>t. I t = I s"])
     (auto simp: RAM_write_def)

lemma LDA_succeeds: "unat (I s) + VX i < SIZE_MEM \<Longrightarrow> \<exists>t. LDA i s = Inr t"
  unfolding LDA_def
  by (rule for_each_succeeds[where P = "\<lambda>t. I t = I s"])
     (auto simp: RAM_read_def)

lemma execute_STA: "MSN i = 0xF \<Longrightarrow> BYTE i = 0x55 \<Longrightarrow> execute base r i s = STA i s"
  by (simp add: execute_def Let_def)

lemma execute_LDA: "MSN i = 0xF \<Longrightarrow> BYTE i = 0x65 \<Longrightarrow> execute base r i s = LDA i s"
  by (simp add: execute_def Let_def)

text \<open>
  C10. The register-block store \<open>Fx55\<close> and the register-block load \<open>Fx65\<close> leave the
  index register \<open>I\<close> unchanged, for every \<open>X\<close> and every starting value of \<open>I\<close>: the
  decoder runs \<open>STA\<close> and \<open>LDA\<close> for these words, whenever they return the new \<open>I\<close> is the
  old one, and they do return when the block \<open>I .. I + X\<close> lies inside \<open>RAM\<close>.
\<close>

theorem block_transfer_keeps_I:
  "(MSN i = 0xF \<and> BYTE i = 0x55 \<longrightarrow> execute base r i s = STA i s) \<and>
   (MSN i = 0xF \<and> BYTE i = 0x65 \<longrightarrow> execute base r i s = LDA i s) \<and>
   (\<forall>s'. STA i s = Inr s' \<longrightarrow> I s' = I s) \<and>
   (\<forall>s'. LDA i s = Inr s' \<longrightarrow> I s' = I s) \<and>
   (unat (I s) + VX i < SIZE_MEM \<longrightarrow> (\<exists>t. STA i s = Inr t) \<and> (\<exists>t. LDA i s = Inr t))"
  using STA_I LDA_I STA_succeeds LDA_succeeds execute_STA execute_LDA by blast

theorem block_transfer_keeps_I_witness:
  "MSN 0xF255 = 0xF \<and> BYTE 0xF255 = 0x55 \<and> unat (I block_demo) + VX 0xF255 < SIZE_MEM \<and>
   result_of I (execute 0x6010a0 0 0xF255 block_demo) = Some 0x300 \<and>
   result_of I (LDA 0xF255 block_demo) = Some 0x300"
proof -
  note inst = block_transfer_keeps_I[of "0xF255" "0x6010a0" 0 block_demo]
  have h1: "MSN 0xF255 = 0xF \<and> BYTE 0xF255 = 0x55" by (simp add: MSN_def BYTE_def)
  have h2: "unat (I block_demo) + VX 0xF255 < SIZE_MEM"
    by (simp add: block_demo_def VX_def SIZE_MEM_def)
  have e: "execute 0x6010a0 0 0xF255 block_demo = STA 0xF255 block_demo"
    using inst h1 by blast
  obtain t where t: "STA 0xF255 block_demo = Inr t" using inst h2 by blast
  obtain u where u: "LDA 0xF255 block_demo = Inr u" using inst h2 by blast
  have "I t = I block_demo" using inst t by blast
  moreover have "I u = I block_demo" using inst u by blast
  moreover have "I block_demo = 0x300" by (simp add: block_demo_def)
  ultimately show ?thesis using h1 h2 e t u by simp
qed

section \<open>Addition with carry\<close>

lemma u8_add_mod: "unat ((a::u8) + b) = (unat a + unat b) mod 256"
  by (simp add: unat_word_ariths)

lemma ADD_carry_test:
  "(uint (a::u8) > 0xFF - uint (b::u8)) = (unat a + unat b > 255)"
  unfolding uint_nat by linarith

text \<open>
  When neither operand register is \<open>VF\<close>, \<open>ADD\<close> leaves the sum modulo 256 in \<open>VX\<close>
  and the carry in \<open>VF\<close>.
\<close>

lemma ADD_distinct_registers:
  assumes "VX i \<noteq> 0xF" and "VY i \<noteq> 0xF"
  shows "unat (v (ADD i s) (VX i)) = (unat (v s (VX i)) + unat (v s (VY i))) mod 256 \<and>
         v (ADD i s) 0xF = (if unat (v s (VX i)) + unat (v s (VY i)) > 255 then 1 else 0)"
  using assms by (simp add: ADD_def Let_def u8_add_mod ADD_carry_test)

text \<open>
  C4. \<open>ADD X,Y\<close> is to leave \<open>(VX + VY) mod 256\<close> in \<open>VX\<close> and the carry in \<open>VF\<close>, for all
  register indices. The code writes \<open>VF\<close> before it reads the operands of the sum. With
  \<open>Y = 0xF\<close> (\<open>0x80F4\<close>, \<open>V0 = 1\<close>, \<open>VF = 5\<close>) the sum adds the carry instead of the old
  \<open>VF\<close>: \<open>V0\<close> ends as 1, not 6. With \<open>X = 0xF\<close> (\<open>0x8F04\<close>, \<open>VF = 0xFF\<close>, \<open>V0 = 1\<close>) the
  carry 1 is overwritten by carry plus \<open>V0\<close>: \<open>VF\<close> ends as 2, not 1.
\<close>

theorem ADD_flag_register_as_operand:
  "v (ADD 0x80F4 (boot\<lparr>v := (v boot)(0 := 1, 0xF := 5)\<rparr>)) 0 = 1 \<and>
   v (ADD 0x8F04 (boot\<lparr>v := (v boot)(0xF := 0xFF, 0 := 1)\<rparr>)) 0xF = 2"
  by (simp add: ADD_def VX_def VY_def boot_def)

section \<open>Glyph lookup\<close>

lemma unat_u8_times5: "unat (of_nat (unat (x::u8) * 5) :: u16) = unat x * 5"
proof -
  have "unat x < 256" using unsigned_less[of x] by simp
  then have "unat x * 5 < 65536" by simp
  then have "(unat x * 5) mod 2 ^ LENGTH(16) = unat x * 5" by simp
  then show ?thesis by (simp only: unat_of_nat)
qed

lemma LDF_I: "unat (I (LDF i s)) = 5 * unat (v s (VX i))"
proof -
  have "I (LDF i s) = of_nat (unat (v s (VX i)) * 5)" by (simp add: LDF_def)
  then show ?thesis using unat_u8_times5[of "v s (VX i)"] by (simp only: mult.commute)
qed

lemma initialize_font: "a < SIZE_FS \<Longrightarrow> RAM (initialize base s0) a = font_set ! a"
  by (simp add: initialize_def Let_def CLS_def)

text \<open>
  C8, as the code has it. \<open>LDF\<close> has no range check: for every value of \<open>VX\<close> (0 to 255)
  the glyph-lookup instruction \<open>Fx29\<close> completes and sets \<open>I = 5 * VX\<close>. For \<open>VX\<close> in
  0..15 this is the base address of the 5-byte glyph of digit \<open>VX\<close>: while \<open>RAM\<close> holds what
  \<open>initialize\<close> put there, the bytes at \<open>I .. I + 4\<close> are the five bytes of that digit in
  \<open>font_set\<close>.
\<close>

theorem LDF_glyph_base:
  "unat (I (LDF i s)) = 5 * unat (v s (VX i)) \<and>
   (MSN i = 0xF \<and> BYTE i = 0x29 \<longrightarrow> execute base r i s = Inr (LDF i s)) \<and>
   (unat (v s (VX i)) < 16 \<and> k < 5 \<and> RAM s = RAM (initialize base s0) \<longrightarrow>
      RAM s (unat (I (LDF i s)) + k) = font_set ! (5 * unat (v s (VX i)) + k))"
proof (intro conjI impI)
  show "unat (I (LDF i s)) = 5 * unat (v s (VX i))"
    by (rule LDF_I)
  show "execute base r i s = Inr (LDF i s)" if "MSN i = 0xF \<and> BYTE i = 0x29"
    using that by (simp add: execute_def Let_def)
  show "RAM s (unat (I (LDF i s)) + k) = font_set ! (5 * unat (v s (VX i)) + k)"
    if "unat (v s (VX i)) < 16 \<and> k < 5 \<and> RAM s = RAM (initialize base s0)"
  proof -
    have "5 * unat (v s (VX i)) + k < SIZE_FS" using that by (simp add: SIZE_FS_def)
    then show ?thesis using that by (simp only: LDF_I initialize_font)
  qed
qed

text \<open>
  C8 as stated fails: with \<open>V0 = 16\<close>, outside 0..15, the instruction \<open>0xF029\<close> does not
  fail; it returns normally with \<open>I = 80\<close>.
\<close>

theorem LDF_no_UnknownOperand:
  "result_of I (execute 0x6010a0 0 0xF029 (boot\<lparr>v := (v boot)(0 := 16)\<rparr>)) = Some 80"
  by (simp add: execute_def MSN_def LSN_def BYTE_def LDF_def VX_def boot_def Let_def)

theorem LDF_glyph_base_witness:
  "MSN 0xF129 = 0xF \<and> BYTE 0xF129 = 0x29 \<and>
   execute 0x6010a0 0 0xF129 glyph_demo = Inr (LDF 0xF129 glyph_demo) \<and>
   unat (I (LDF 0xF129 glyph_demo)) = 35 \<and>
   RAM glyph_demo (unat (I (LDF 0xF129 glyph_demo)) + 2) = 0x20"
proof -
  note inst = LDF_glyph_base[of "0xF129" glyph_demo "0x6010a0" 0 2 boot]
  have h1: "MSN 0xF129 = 0xF \<and> BYTE 0xF129 = 0x29" by (simp add: MSN_def BYTE_def)
  have h2: "unat (v glyph_demo (VX 0xF129)) < 16 \<and> (2::nat) < 5 \<and>
     RAM glyph_demo = RAM (initialize 0x6010a0 boot)"
    by (simp add: glyph_demo_def)
  have c1: "unat (I (LDF 0xF129 glyph_demo)) = 5 * unat (v glyph_demo (VX 0xF129))"
    using inst by blast
  have c2: "execute 0x6010a0 0 0xF129 glyph_demo = Inr (LDF 0xF129 glyph_demo)"
    using inst h1 by blast
  have c3: "RAM glyph_demo (unat (I (LDF 0xF129 glyph_demo)) + 2) =
              font_set ! (5 * unat (v glyph_demo (VX 0xF129)) + 2)"
    using inst h2 by blast
  have e1: "5 * unat (v glyph_demo (VX 0xF129)) = 35" by (simp add: glyph_demo_def)
  have e2: "font_set ! (35 + 2) = 0x20" by (simp add: font_set_def)
  have d1: "unat (I (LDF 0xF129 glyph_demo)) = 35" using c1 e1 by (rule trans)
  have d3: "RAM glyph_demo (unat (I (LDF 0xF129 glyph_demo)) + 2) = 0x20"
    using c3 e1 e2 by (simp only:)
  show ?thesis using h1 c2 d1 d3 by blast
qed

section \<open>The call stack\<close>

lemma load16_store16: "load16 (store16 m a x) a = x"
  unfolding load16_def store16_def
  by (rule bit_word_eqI) (auto simp: bit_simps)

lemma fetch_Inr:
  "fetch s = Inr (i, t) \<Longrightarrow>
     t = s\<lparr>PC := PC s + 2\<rparr> \<and> unat (PC s) + 1 < SIZE_MEM \<and>
     i = INSTR (RAM s (unat (PC s))) (RAM s (unat (PC s) + 1))"
  by (auto simp: fetch_def RAM_read_def split: if_splits)

lemma execute_CALL: "MSN i = 0x2 \<Longrightarrow> execute base r i s = CALL base i s"
  by (simp add: execute_def Let_def)

lemma execute_RET: "execute base r 0x00EE s = RET base s"
  by (simp add: execute_def Let_def MSN_def)

lemma CALL_Inr:
  assumes "CALL base i s = Inr s'"
  shows "s' = s\<lparr>RAM := store16 (RAM s) (sp s - base) (PC s - 2), sp := sp s - 2, PC := ADDR i\<rparr>
         \<and> STACK_UP \<le> sp s \<and> base \<le> sp s \<and> sp s + 1 < base + SIZE_MEM"
  using assms by (auto simp: CALL_def push_def split: if_splits)

lemma push_all_append:
  "push_all base (xs @ ys) s =
     (case push_all base xs s of Inl e \<Rightarrow> Inl e | Inr s' \<Rightarrow> push_all base ys s')"
  by (induction xs arbitrary: s) (auto split: sum.splits)

lemma push_all_succeeds:
  assumes "STACK_UP + 2 * length as \<le> sp s + 2"
    and "base + 2 * length as \<le> sp s + 2"
    and "sp s + 1 < base + SIZE_MEM"
  shows "\<exists>s'. push_all base as s = Inr s' \<and> sp s' + 2 * length as = sp s"
  using assms
proof (induction as arbitrary: s)
  case Nil
  then show ?case by simp
next
  case (Cons a as)
  let ?s1 = "s\<lparr>RAM := store16 (RAM s) (sp s - base) a, sp := sp s - 2\<rparr>"
  have p: "push base a s = Inr ?s1"
    using Cons.prems by (simp add: push_def)
  have "\<exists>s'. push_all base as ?s1 = Inr s' \<and> sp s' + 2 * length as = sp ?s1"
    using Cons.prems by (intro Cons.IH) auto
  then obtain s' where "push_all base as ?s1 = Inr s'" "sp s' + 2 * length as = sp ?s1"
    by blast
  then show ?case using p Cons.prems by (auto simp: STACK_UP_def)
qed

lemma initialize_sp: "sp (initialize base s) = base + STACK_LOW"
  by (simp add: initialize_def Let_def CLS_def)

text \<open>
  C2. From a reset machine 16 pushes are to succeed and the 17th is to fail with
  "Stack overflow". \<open>push\<close> tests \<open>sp < (address*) STACK_UP\<close>: it compares the pointer with
  the absolute address \<open>0xEA0\<close>, not with \<open>&RAM[STACK_UP]\<close> (as \<open>initialize\<close> and
  \<open>print_stack\<close> form their pointers). Wherever \<open>RAM\<close> lies at address 2 or above, the
  test does not fire on the 17th push: all 17 pushes return, the stack pointer ends at
  \<open>&RAM[0xE9C]\<close> and the 17th address is stored at \<open>RAM[0xE9E]\<close>, below the stack area.
\<close>

theorem seventeenth_push_returns:
  assumes "2 \<le> base" and "length as = 17"
  shows "\<exists>s'. push_all base as (initialize base s) = Inr s' \<and>
              sp s' = base + 0xE9C \<and> stack_top base s' = last as"
proof -
  from assms(2) have ne: "as \<noteq> []" by auto
  define xs where "xs = butlast as"
  have as: "as = xs @ [last as]" and lx: "length xs = 16"
    using ne assms(2) by (simp_all add: xs_def)
  let ?s0 = "initialize base s"
  have "\<exists>s1. push_all base xs ?s0 = Inr s1 \<and> sp s1 + 2 * length xs = sp ?s0"
    using assms(1) lx
    by (intro push_all_succeeds) (simp_all add: initialize_sp STACK_UP_def STACK_LOW_def SIZE_MEM_def)
  then obtain s1 where s1: "push_all base xs ?s0 = Inr s1" "sp s1 + 2 * length xs = sp ?s0"
    by blast
  then have sp1: "sp s1 = base + 0xE9E"
    using lx by (simp add: initialize_sp STACK_LOW_def)
  let ?s2 = "s1\<lparr>RAM := store16 (RAM s1) (sp s1 - base) (last as), sp := sp s1 - 2\<rparr>"
  have "push base (last as) s1 = Inr ?s2"
    using sp1 assms(1) by (simp add: push_def STACK_UP_def SIZE_MEM_def)
  then have "push_all base as (initialize base s) = Inr ?s2"
    using s1(1) by (subst as) (simp add: push_all_append)
  moreover have "sp ?s2 = base + 0xE9C" using sp1 by simp
  moreover have "stack_top base ?s2 = last as"
    using sp1 by (simp add: stack_top_def load16_store16)
  ultimately show ?thesis by blast
qed

theorem seventeenth_push_returns_witness:
  "(2::nat) \<le> 0x6010a0 \<and> length seventeen = 17 \<and>
   result_of sp (push_all 0x6010a0 seventeen (initialize 0x6010a0 boot)) = Some (0x6010a0 + 0xE9C) \<and>
   result_of (stack_top 0x6010a0) (push_all 0x6010a0 seventeen (initialize 0x6010a0 boot)) = Some 0x220"
proof -
  have h1: "(2::nat) \<le> 0x6010a0" by simp
  have h2: "length seventeen = 17" by (simp add: seventeen_def)
  have l: "last seventeen = 0x220" by (simp add: seventeen_def)
  obtain s' where "push_all 0x6010a0 seventeen (initialize 0x6010a0 boot) = Inr s'"
     "sp s' = 0x6010a0 + 0xE9C" "stack_top 0x6010a0 s' = last seventeen"
    using seventeenth_push_returns[OF h1 h2, of boot] by blast
  then show ?thesis using h1 h2 l by simp
qed

text \<open>Only with \<open>RAM\<close> at address 0 would the test of \<open>push\<close> stop the 17th push.\<close>

lemma push_checked_at_address_zero:
  "push_all 0 seventeen (initialize 0 boot) = Inl StackOverflow"
  by (simp add: seventeen_def push_def initialize_def Let_def CLS_def STACK_UP_def STACK_LOW_def SIZE_MEM_def boot_def)


lemma RET_pop: "pop base s = Inr (a, u) \<Longrightarrow> RET base s = Inr (u\<lparr>PC := a + 2\<rparr>)"
  by (simp add: RET_def)

text \<open>
  C5, as the code has it. For every \<open>CALL N\<close> (a word \<open>2NNN\<close> fetched at the address
  \<open>PC\<close>), the address stored on the call stack is the address of the \<open>CALL\<close> instruction
  itself (\<open>PC - 2\<close> after the fetch has advanced \<open>PC\<close>), the stack pointer moves down by
  one entry and \<open>PC\<close> becomes \<open>N\<close>; and \<open>RET\<close> sets \<open>PC\<close> to the popped address plus 2.
\<close>

theorem CALL_pushes_own_address:
  "(fetch s = Inr (i, t) \<and> MSN i = 0x2 \<and> execute base r i t = Inr s' \<longrightarrow>
      stack_top base s' = PC s \<and> sp s' = sp s - 2 \<and> PC s' = ADDR i) \<and>
   (pop base s = Inr (a, u) \<longrightarrow> execute base r 0x00EE s = Inr (u\<lparr>PC := a + 2\<rparr>))"
proof (intro conjI impI)
  assume h: "fetch s = Inr (i, t) \<and> MSN i = 0x2 \<and> execute base r i t = Inr s'"
  then have t: "t = s\<lparr>PC := PC s + 2\<rparr>" using fetch_Inr by blast
  have "execute base r i t = CALL base i t" using h by (intro execute_CALL) blast
  with h have "CALL base i t = Inr s'" by simp
  from CALL_Inr[OF this]
  have s': "s' = t\<lparr>RAM := store16 (RAM t) (sp t - base) (PC t - 2), sp := sp t - 2, PC := ADDR i\<rparr>"
    and b: "STACK_UP \<le> sp t" by auto
  have "sp s' + 2 = sp s" using s' t b by (simp add: STACK_UP_def)
  then show "stack_top base s' = PC s"
    using s' t by (simp add: stack_top_def load16_store16)
  show "sp s' = sp s - 2" using s' t by simp
  show "PC s' = ADDR i" using s' by simp
next
  assume "pop base s = Inr (a, u)"
  then show "execute base r 0x00EE s = Inr (u\<lparr>PC := a + 2\<rparr>)"
    by (simp add: execute_RET RET_pop)
qed

text \<open>
  C5 as stated fails: after the \<open>CALL 0x204\<close> fetched at \<open>0x200\<close> the stack holds
  \<open>0x200\<close>, not the address \<open>0x202\<close> to resume at; and the \<open>RET\<close> that follows pops
  \<open>0x200\<close> and sets \<open>PC\<close> to \<open>0x202\<close>, not to the popped address.
\<close>

theorem CALL_return_address_counterexample:
  "result_of (stack_top 0x6010a0) (run_rom 0x6010a0 call_rom [0]) = Some 0x200 \<and>
   result_of PC (run_rom 0x6010a0 call_rom [0, 0]) = Some 0x202"
  by (simp add: run_rom_def loaded_def load_source_def initialize_def boot_def CLS_def call_rom_def
      step_def fetch_def RAM_read_def SIZE_MEM_def SIZE_FS_def INSTR_def execute_def MSN_def LSN_def
      CALL_def RET_def push_def pop_def STACK_UP_def STACK_LOW_def ADDR_def Let_def
      stack_top_def load16_def store16_def)

lemma call_demo_fields:
  "PC call_demo = 0x200" "sp call_demo = 0x6010a0 + 0xEBE"
  "RAM call_demo 0x200 = 0x22" "RAM call_demo 0x201 = 0x04"
  "RAM call_demo 0x204 = 0x00" "RAM call_demo 0x205 = 0xEE"
  by (simp_all add: call_demo_def initialize_def Let_def CLS_def STACK_LOW_def)

lemma fetch_call_demo: "fetch call_demo = Inr (0x2204, call_demo\<lparr>PC := 0x202\<rparr>)"
  by (simp add: call_demo_def fetch_def RAM_read_def initialize_def Let_def CLS_def SIZE_MEM_def INSTR_def)

lemma pop_call_demo:
  "pop 0x6010a0 (call_demo\<lparr>sp := 0x6010a0 + 0xEBC\<rparr>) = Inr (0, call_demo\<lparr>sp := 0x6010a0 + 0xEBE\<rparr>)"
  by (simp add: call_demo_def pop_def initialize_def Let_def CLS_def SIZE_MEM_def SIZE_FS_def STACK_LOW_def load16_def)

theorem CALL_pushes_own_address_witness:
  "fetch call_demo = Inr (0x2204, call_demo\<lparr>PC := 0x202\<rparr>) \<and> MSN 0x2204 = 0x2 \<and>
   result_of (stack_top 0x6010a0) (execute 0x6010a0 0 0x2204 (call_demo\<lparr>PC := 0x202\<rparr>)) = Some 0x200 \<and>
   result_of PC (execute 0x6010a0 0 0x2204 (call_demo\<lparr>PC := 0x202\<rparr>)) = Some 0x204 \<and>
   result_of PC (execute 0x6010a0 0 0x00EE (call_demo\<lparr>sp := 0x6010a0 + 0xEBC\<rparr>)) = Some 0x002"
proof -
  let ?t = "call_demo\<lparr>PC := 0x202\<rparr>"
  have m: "MSN 0x2204 = 0x2" by (simp add: MSN_def)
  have "\<exists>s'. execute 0x6010a0 0 0x2204 ?t = Inr s'"
    by (simp add: execute_CALL m CALL_def push_def call_demo_def initialize_def Let_def CLS_def
        STACK_UP_def STACK_LOW_def SIZE_MEM_def)
  then obtain s' where e: "execute 0x6010a0 0 0x2204 ?t = Inr s'" by blast
  have "stack_top 0x6010a0 s' = PC call_demo \<and> sp s' = sp call_demo - 2 \<and> PC s' = ADDR 0x2204"
    using CALL_pushes_own_address[of call_demo "0x2204" ?t "0x6010a0" 0 s']
      fetch_call_demo m e by blast
  moreover have "PC call_demo = 0x200" by (simp add: call_demo_def initialize_def Let_def CLS_def)
  moreover have "ADDR 0x2204 = 0x204" by (simp add: ADDR_def)
  ultimately have c1: "result_of (stack_top 0x6010a0) (execute 0x6010a0 0 0x2204 ?t) = Some 0x200"
    and c2: "result_of PC (execute 0x6010a0 0 0x2204 ?t) = Some 0x204"
    using e by simp_all
  have "execute 0x6010a0 0 0x00EE (call_demo\<lparr>sp := 0x6010a0 + 0xEBC\<rparr>) =
          Inr (call_demo\<lparr>sp := 0x6010a0 + 0xEBE, PC := 0 + 2\<rparr>)"
    using CALL_pushes_own_address[of "call_demo\<lparr>sp := 0x6010a0 + 0xEBC\<rparr>" _ _ "0x6010a0" 0 _ 0
        "call_demo\<lparr>sp := 0x6010a0 + 0xEBE\<rparr>"] pop_call_demo by simp
  then have c3: "result_of PC (execute 0x6010a0 0 0x00EE (call_demo\<lparr>sp := 0x6010a0 + 0xEBC\<rparr>)) = Some 0x002"
    by simp
  show ?thesis using fetch_call_demo m c1 c2 c3 by blast
qed

text \<open>
  C6. When a step executes \<open>CALL N\<close> (without stack overflow) and the instruction at \<open>N\<close>
  is \<open>RET\<close>, the next step returns and leaves \<open>PC\<close> at the address of the instruction
  after the \<open>CALL\<close>, and the stack pointer where it was. \<open>RAM\<close> is assumed to lie above
  the first 4096 bytes of the address space (as every hosted platform has it), so that
  the stack pointer cannot equal the absolute address \<open>0xEBE\<close> that \<open>pop\<close> tests.
\<close>

theorem CALL_RET_resumes_after_call:
  assumes "SIZE_MEM \<le> base"
    and "fetch s = Inr (i, t)" and "MSN i = 0x2"
    and "step base r s = Inr s1"
    and "fetch s1 = Inr (0x00EE, t1)"
  shows "\<exists>s2. step base r' s1 = Inr s2 \<and> PC s2 = PC s + 2 \<and> sp s2 = sp s"
proof -
  have t: "t = s\<lparr>PC := PC s + 2\<rparr>" using assms(2) fetch_Inr by blast
  have "CALL base i t = Inr s1" using assms(2,3,4) by (simp add: step_def execute_CALL)
  from CALL_Inr[OF this]
  have s1: "s1 = t\<lparr>RAM := store16 (RAM t) (sp t - base) (PC t - 2), sp := sp t - 2, PC := ADDR i\<rparr>"
    and b: "STACK_UP \<le> sp t" "base \<le> sp t" "sp t + 1 < base + SIZE_MEM" by auto
  have t1: "t1 = s1\<lparr>PC := PC s1 + 2\<rparr>" using assms(5) fetch_Inr by blast
  have sp1: "sp t1 + 2 = sp s" using t1 s1 t b(1) by (simp add: STACK_UP_def)
  have ne: "sp t1 \<noteq> STACK_LOW"
    using sp1 b(2) t assms(1) by (simp add: STACK_LOW_def SIZE_MEM_def)
  have "pop base t1 = Inr (load16 (RAM t1) (sp s - base), t1\<lparr>sp := sp s\<rparr>)"
    using ne sp1 b t by (simp add: pop_def)
  moreover have "load16 (RAM t1) (sp s - base) = PC s"
    using t1 s1 t by (simp add: load16_store16)
  ultimately have "RET base t1 = Inr (t1\<lparr>sp := sp s, PC := PC s + 2\<rparr>)"
    by (simp add: RET_def)
  then have "step base r' s1 = Inr (t1\<lparr>sp := sp s, PC := PC s + 2\<rparr>)"
    using assms(5) by (simp add: step_def execute_RET)
  then show ?thesis by simp
qed

theorem CALL_RET_resumes_after_call_witness:
  "SIZE_MEM \<le> 0x6010a0 \<and> fetch call_demo = Inr (0x2204, call_demo\<lparr>PC := 0x202\<rparr>) \<and>
   MSN 0x2204 = 0x2 \<and> result_of PC (steps 0x6010a0 [0, 0] call_demo) = Some 0x202"
proof -
  let ?s1 = "call_demo\<lparr>RAM := store16 (RAM call_demo) 0xEBE 0x200, sp := 0x6010a0 + 0xEBC, PC := 0x204\<rparr>"
  have h1: "SIZE_MEM \<le> 0x6010a0" by (simp add: SIZE_MEM_def)
  have m: "MSN 0x2204 = 0x2" by (simp add: MSN_def)
  have st: "step 0x6010a0 0 call_demo = Inr ?s1"
    by (simp add: step_def fetch_call_demo execute_CALL m CALL_def push_def call_demo_fields
        STACK_UP_def SIZE_MEM_def ADDR_def)
  have f1: "fetch ?s1 = Inr (0x00EE, ?s1\<lparr>PC := 0x206\<rparr>)"
    by (simp add: call_demo_fields fetch_def RAM_read_def SIZE_MEM_def INSTR_def store16_def)
  obtain s2 where s2: "step 0x6010a0 0 ?s1 = Inr s2" "PC s2 = PC call_demo + 2"
    using CALL_RET_resumes_after_call[OF h1 fetch_call_demo m st f1, of 0] by blast
  have "PC call_demo = 0x200" by (rule call_demo_fields)
  then have "result_of PC (steps 0x6010a0 [0, 0] call_demo) = Some 0x202"
    using st s2 by simp
  then show ?thesis using h1 fetch_call_demo m by blast
qed

section \<open>Waiting for a key\<close>

lemma execute_LDK: "MSN i = 0xF \<Longrightarrow> BYTE i = 0x0A \<Longrightarrow> execute base r i s = Inr (LDK i s)"
  by (simp add: execute_def Let_def)

lemma LDK_no_key:
  assumes "\<forall>j<NUM_KEYS. keys s j = 0"
  shows "LDK i s = s\<lparr>PC := PC s - 2\<rparr>"
proof -
  have "find (\<lambda>j. keys s j \<noteq> 0) [0..<NUM_REGS] = None"
    using assms by (simp add: find_None_iff NUM_REGS_def NUM_KEYS_def)
  then show ?thesis by (simp add: LDK_def)
qed

lemma LDK_key:
  assumes "j < NUM_KEYS" and "keys s j \<noteq> 0" and "\<forall>k<j. keys s k = 0"
  shows "LDK i s = s\<lparr>v := (v s)(VX i := of_nat j)\<rparr>"
proof -
  have "find (\<lambda>j. keys s j \<noteq> 0) [0..<NUM_REGS] = Some j"
    using assms by (auto simp: find_Some_iff NUM_REGS_def NUM_KEYS_def intro!: exI[of _ j])
  then show ?thesis by (simp add: LDK_def)
qed

lemma step_LDK:
  assumes "fetch s = Inr (i, t)" and "MSN i = 0xF" and "BYTE i = 0x0A"
  shows "step base r s = Inr (LDK i (s\<lparr>PC := PC s + 2\<rparr>))"
  using assms fetch_Inr[OF assms(1)] by (simp add: step_def execute_LDK)

text \<open>
  C7. Let the instruction at \<open>PC\<close> be the wait-for-key instruction \<open>Fx0A\<close>. While no key
  is pressed, a step returns the state it started from (so \<open>PC\<close> is unchanged and the
  machine makes no progress), and so does any number of steps. When a key is pressed, with
  \<open>j\<close> the lowest pressed key, that one step stores \<open>j\<close> in \<open>VX\<close> and leaves \<open>PC\<close> past
  the instruction, so that the following step fetches the next instruction.
\<close>

theorem LDK_waits_for_key:
  assumes "fetch s = Inr (i, t)" and "MSN i = 0xF" and "BYTE i = 0x0A"
  shows "((\<forall>j<NUM_KEYS. keys s j = 0) \<longrightarrow> step base r s = Inr s \<and> steps base rs s = Inr s) \<and>
         (\<forall>j<NUM_KEYS. keys s j \<noteq> 0 \<and> (\<forall>k<j. keys s k = 0) \<longrightarrow>
            step base r s = Inr (s\<lparr>PC := PC s + 2, v := (v s)(VX i := of_nat j)\<rparr>))"
proof (intro conjI impI allI)
  assume nk: "\<forall>j<NUM_KEYS. keys s j = 0"
  have one: "step base r' s = Inr s" for r'
    using step_LDK[OF assms, of base r'] nk by (simp add: LDK_no_key)
  show "step base r s = Inr s" by (rule one)
  show "steps base rs s = Inr s" by (induction rs) (simp_all add: one)
next
  fix j assume "j < NUM_KEYS" and "keys s j \<noteq> 0 \<and> (\<forall>k<j. keys s k = 0)"
  then show "step base r s = Inr (s\<lparr>PC := PC s + 2, v := (v s)(VX i := of_nat j)\<rparr>)"
    using step_LDK[OF assms, of base r] by (simp add: LDK_key)
qed

lemma key_demo_fields:
  "PC key_demo = 0x200" "RAM key_demo 0x200 = 0xF3" "RAM key_demo 0x201 = 0x0A"
  "\<forall>j<NUM_KEYS. keys key_demo j = 0"
  by (simp_all add: key_demo_def initialize_def Let_def CLS_def)

lemma fetch_key_demo: "fetch key_demo = Inr (0xF30A, key_demo\<lparr>PC := 0x202\<rparr>)"
  by (simp add: key_demo_fields fetch_def RAM_read_def SIZE_MEM_def INSTR_def)

lemma fetch_key_pressed_demo:
  "fetch key_pressed_demo = Inr (0xF30A, key_pressed_demo\<lparr>PC := 0x202\<rparr>)"
  by (simp add: key_pressed_demo_def key_demo_fields fetch_def RAM_read_def SIZE_MEM_def INSTR_def)

theorem LDK_waits_for_key_witness:
  "fetch key_demo = Inr (0xF30A, key_demo\<lparr>PC := 0x202\<rparr>) \<and>
   fetch key_pressed_demo = Inr (0xF30A, key_pressed_demo\<lparr>PC := 0x202\<rparr>) \<and>
   MSN 0xF30A = 0xF \<and> BYTE 0xF30A = 0x0A \<and>
   steps 0x6010a0 [0, 0, 0] key_demo = Inr key_demo \<and>
   step 0x6010a0 0 key_pressed_demo =
     Inr (key_pressed_demo\<lparr>PC := 0x202, v := (v key_pressed_demo)(3 := 5)\<rparr>)"
proof -
  have m: "MSN 0xF30A = 0xF" and b: "BYTE 0xF30A = 0x0A" by (simp_all add: MSN_def BYTE_def)
  have x: "VX 0xF30A = 3" by (simp add: VX_def)
  have c1: "steps 0x6010a0 [0, 0, 0] key_demo = Inr key_demo"
    using LDK_waits_for_key[OF fetch_key_demo m b, where base = "0x6010a0" and r = 0 and rs = "[0, 0, 0]"] key_demo_fields(4)
    by blast
  have k: "(5::nat) < NUM_KEYS \<and> keys key_pressed_demo 5 \<noteq> 0 \<and> (\<forall>k<5. keys key_pressed_demo k = 0)"
    using key_demo_fields(4) by (simp add: key_pressed_demo_def NUM_KEYS_def)
  have "step 0x6010a0 0 key_pressed_demo =
     Inr (key_pressed_demo\<lparr>PC := PC key_pressed_demo + 2, v := (v key_pressed_demo)(VX 0xF30A := of_nat 5)\<rparr>)"
    using LDK_waits_for_key[OF fetch_key_pressed_demo m b, where base = "0x6010a0" and r = 0 and rs = "[]"] k by blast
  moreover have "PC key_pressed_demo = 0x200" by (simp add: key_pressed_demo_def key_demo_fields)
  ultimately have c2: "step 0x6010a0 0 key_pressed_demo =
     Inr (key_pressed_demo\<lparr>PC := 0x202, v := (v key_pressed_demo)(3 := 5)\<rparr>)"
    using x by simp
  show ?thesis using fetch_key_demo fetch_key_pressed_demo m b c1 c2 by blast
qed

section \<open>The program counter\<close>

lemma MSN_narrow: "MSN i = ucast (ucast (MSN i) :: u8)"
  by (rule bit_word_eqI) (auto simp: MSN_def bit_simps dest: bit_imp_le_length)

lemma MSN_cases:
  "(ucast (MSN i) :: u8) = 0x1 \<Longrightarrow> MSN i = 0x1"
  "(ucast (MSN i) :: u8) = 0x2 \<Longrightarrow> MSN i = 0x2"
  "(ucast (MSN i) :: u8) = 0xB \<Longrightarrow> MSN i = 0xB"
  by (subst MSN_narrow, simp)+

lemma DRW_pixel_PC: "DRW_pixel Vx Vy y p x s = Inr s' \<Longrightarrow> PC s' = PC s"
  by (auto simp: DRW_pixel_def Let_def split: if_splits)

lemma DRW_row_PC: "DRW_row Vx Vy y s = Inr s' \<Longrightarrow> PC s' = PC s"
  unfolding DRW_row_def
  by (auto simp: RAM_read_def split: if_splits sum.splits
      elim!: for_each_invariant[where P = "\<lambda>t. PC t = PC s"] dest: DRW_pixel_PC)

lemma DRW_PC: "DRW i s = Inr s' \<Longrightarrow> PC s' = PC s"
  unfolding DRW_def Let_def
  by (erule for_each_invariant[where P = "\<lambda>t. PC t = PC s"]) (auto dest: DRW_row_PC)

lemma STA_PC: "STA i s = Inr s' \<Longrightarrow> PC s' = PC s"
  unfolding STA_def
  by (erule for_each_invariant[where P = "\<lambda>t. PC t = PC s"])
     (auto simp: RAM_write_def split: if_splits)

lemma LDA_PC: "LDA i s = Inr s' \<Longrightarrow> PC s' = PC s"
  unfolding LDA_def
  by (erule for_each_invariant[where P = "\<lambda>t. PC t = PC s"])
     (auto simp: RAM_read_def split: if_splits sum.splits)

lemma BCD_PC: "BCD i s = Inr s' \<Longrightarrow> PC s' = PC s"
  by (auto simp: BCD_def RAM_write_def split: if_splits sum.splits)

lemma SKP_PC: "SKP i s = Inr s' \<Longrightarrow> PC s' = PC s \<or> PC s' = PC s + 2"
  by (auto simp: SKP_def Let_def split: if_splits)

lemma SKNP_PC: "SKNP i s = Inr s' \<Longrightarrow> PC s' = PC s \<or> PC s' = PC s + 2"
  by (auto simp: SKNP_def Let_def split: if_splits)

lemma LDK_PC: "PC (LDK i s) = PC s \<or> PC (LDK i s) = PC s - 2"
  by (simp add: LDK_def split: option.splits)

lemma execute_PC:
  assumes "\<not> transfers i" and "execute base r i t = Inr s'"
  shows "PC s' = PC t \<or> PC s' = PC t + 2 \<or> PC s' = PC t - 2"
proof -
  have nt: "i \<noteq> 0x00EE" "(ucast (MSN i) :: u8) \<noteq> 0x1" "(ucast (MSN i) :: u8) \<noteq> 0x2"
    "(ucast (MSN i) :: u8) \<noteq> 0xB"
    using assms(1) MSN_cases[of i] by (auto simp: transfers_def)
  show ?thesis
    using assms(2) nt LDK_PC[of i t]
    unfolding execute_def Let_def
    by (auto split: if_splits sum.splits
        simp: CLS_def SE_def SNEI_def SR_def LDB_def ADDI_def LDR_def OR_instr_def AND_instr_def
          XOR_instr_def ADD_def SUB_def SHR_def SUBN_def SHL_def SNE_def LDI_def RND_def LDD_def
          STD_def STS_def IINC_def LDF_def Let_def
        dest: DRW_PC STA_PC LDA_PC BCD_PC SKP_PC SKNP_PC)
qed


lemma loaded_PC: "loaded base rom = Inr s \<Longrightarrow> PC s = 0x200"
  by (auto simp: loaded_def load_source_def initialize_def Let_def CLS_def split: if_splits)

lemma unat_PC_add2: "unat (p::u16) \<le> 4094 \<Longrightarrow> unat (p + 2) = unat p + 2"
  by (simp add: unat_word_ariths)

lemma set_keys_PC: "PC (set_keys pressed s) = PC s"
  by (simp add: set_keys_def)

lemma decrement_timers_PC: "PC (decrement_timers s) = PC s"
  by (simp add: decrement_timers_def Let_def)

text \<open>
  C9, as the code has it. In every state reached from a loaded machine by steps that do
  not fault, with the key writes, draw-flag resets and timer ticks of \<open>run\<close> between them,
  the program counter is even and lies within \<open>[0x200, 4098]\<close>, provided that every
  \<open>RET\<close>, \<open>JP\<close>, \<open>CALL\<close> and \<open>JP V0\<close> that was executed landed on an even address within
  \<open>[0x200, 4094]\<close>. (4096 and 4098 are reached past the instruction at 4094.)
\<close>

theorem reachable_PC_aligned:
  assumes "reachable base rom s"
  shows "even (unat (PC s)) \<and> 0x200 \<le> unat (PC s) \<and> unat (PC s) \<le> 4098"
  using assms
proof (induction rule: reachable.induct)
  case (loaded_state s)
  then show ?case by (simp add: loaded_PC)
next
  case (keys_written s pressed)
  then show ?case by (simp add: set_keys_PC)
next
  case (stepped s i t r s')
  show ?case
  proof (cases "transfers i")
    case True
    then have "lands_in_range s'" using stepped.hyps(4) by simp
    then show ?thesis by (simp add: lands_in_range_def)
  next
    case False
    from stepped.hyps(2) have t: "t = s\<lparr>PC := PC s + 2\<rparr>" and f: "unat (PC s) \<le> 4094"
      using fetch_Inr by (fastforce simp: SIZE_MEM_def)+
    have a2: "unat (PC s + 2) = unat (PC s) + 2" using f by (rule unat_PC_add2)
    have a4: "unat (PC s + 2 + 2) = unat (PC s) + 4" using f a2 by (simp add: unat_word_ariths)
    from execute_PC[OF False stepped.hyps(3)] t
    have "PC s' = PC s + 2 \<or> PC s' = PC s + 2 + 2 \<or> PC s' = PC s" by auto
    then show ?thesis using stepped.IH a2 a4 f by auto
  qed
next
  case (frame_shown s)
  then show ?case by simp
next
  case (timers_ticked s)
  then show ?case by (simp add: decrement_timers_PC)
qed

lemma upt2: "[0..<2] = [0, 1]"
  by (simp add: upt_rec)

lemma jump_to_one: "result_of PC (run_rom 0x6010a0 jump_rom [0]) = Some 0x001"
  by (simp add: run_rom_def loaded_def load_source_def initialize_def boot_def CLS_def jump_rom_def
      step_def fetch_def RAM_read_def SIZE_MEM_def SIZE_FS_def INSTR_def execute_def MSN_def LSN_def
      JP_def ADDR_def Let_def)

lemma skip_past_the_end:
  "result_of PC (run_rom 0x6010a0 last_word_rom [0, 0, 0, 0, 0, 0]) = Some 0x1002"
  by (simp add: run_rom_def loaded_def load_source_def initialize_def boot_def CLS_def
      last_word_rom_def step_def fetch_def RAM_read_def RAM_write_def SIZE_MEM_def SIZE_FS_def
      INSTR_def execute_def MSN_def LSN_def BYTE_def VX_def JP_def LDI_def LDB_def STA_def SE_def
      ADDR_def Let_def upt2)

lemma jump_beyond_the_end:
  "result_of PC (run_rom 0x6010a0 far_rom [0, 0]) = Some 0x10FC"
  by (simp add: run_rom_def loaded_def load_source_def initialize_def boot_def CLS_def
      far_rom_def step_def fetch_def RAM_read_def SIZE_MEM_def SIZE_FS_def
      INSTR_def execute_def MSN_def LSN_def BYTE_def VX_def LDB_def JPR_def ADDR_def Let_def)

text \<open>
  C9 as stated fails. The program \<open>JP 0x001\<close> is loaded and its one step does not fault,
  and the program counter is then 1, odd and below \<open>0x200\<close>: \<open>JP\<close>, \<open>CALL\<close>, \<open>JPR\<close> and
  \<open>RET\<close> assign their target to \<open>PC\<close> unchecked. And a program whose jumps all land in
  range stores a skip instruction in the last word of \<open>RAM\<close>, jumps to it and, six steps
  without a fault after the start, has the program counter at 4098, above 4094. A transfer
  can also land on an even address beyond the range: \<open>JP V0,0xFFE\<close> with \<open>V0 = 0xFE\<close>
  leaves the program counter at 4348.
\<close>

theorem PC_jump_counterexample:
  "result_of PC (run_rom 0x6010a0 jump_rom [0]) = Some 0x001 \<and>
   result_of PC (run_rom 0x6010a0 last_word_rom [0, 0, 0, 0, 0, 0]) = Some 0x1002 \<and>
   result_of PC (run_rom 0x6010a0 far_rom [0, 0]) = Some 0x10FC"
  using jump_to_one skip_past_the_end jump_beyond_the_end by (intro conjI)

lemma loaded_hop_demo: "loaded 0x6010a0 hop_rom = Inr hop_demo"
  by (simp add: hop_demo_def loaded_def load_source_def hop_rom_def)

lemma hop_demo_fields:
  "PC hop_demo = 0x200"
  "RAM hop_demo 0x200 = 0x12" "RAM hop_demo 0x201 = 0x04"
  "RAM hop_demo 0x204 = 0x60" "RAM hop_demo 0x205 = 0x05"
  by (simp_all add: hop_demo_def loaded_def load_source_def hop_rom_def initialize_def Let_def CLS_def)

theorem reachable_PC_aligned_witness:
  "reachable 0x6010a0 hop_rom
     ((set_keys (\<lambda>j. 1) hop_demo)\<lparr>PC := 0x206, v := (v hop_demo)(0 := 5)\<rparr>) \<and>
   even (unat (PC ((set_keys (\<lambda>j. 1) hop_demo)\<lparr>PC := 0x206, v := (v hop_demo)(0 := 5)\<rparr>))) \<and>
   0x200 \<le> unat (PC ((set_keys (\<lambda>j. 1) hop_demo)\<lparr>PC := 0x206, v := (v hop_demo)(0 := 5)\<rparr>)) \<and>
   unat (PC ((set_keys (\<lambda>j. 1) hop_demo)\<lparr>PC := 0x206, v := (v hop_demo)(0 := 5)\<rparr>)) \<le> 4098"
proof -
  let ?k = "set_keys (\<lambda>j. 1) hop_demo"
  let ?s1 = "?k\<lparr>PC := 0x204\<rparr>"
  let ?s2 = "?k\<lparr>PC := 0x206, v := (v hop_demo)(0 := 5)\<rparr>"
  have k: "PC ?k = 0x200" "RAM ?k = RAM hop_demo" "v ?k = v hop_demo"
    by (simp_all add: set_keys_def hop_demo_fields)
  have r0: "reachable 0x6010a0 hop_rom ?k"
    by (rule reachable.keys_written, rule reachable.loaded_state, rule loaded_hop_demo)
  have f0: "fetch ?k = Inr (0x1204, ?k\<lparr>PC := 0x202\<rparr>)"
    by (simp add: k hop_demo_fields fetch_def RAM_read_def SIZE_MEM_def INSTR_def)
  have e0: "execute 0x6010a0 0 0x1204 (?k\<lparr>PC := 0x202\<rparr>) = Inr ?s1"
    by (simp add: execute_def MSN_def LSN_def JP_def ADDR_def Let_def)
  have r1: "reachable 0x6010a0 hop_rom ?s1"
    by (rule reachable.stepped[OF r0 f0 e0]) (simp add: lands_in_range_def)
  have f1: "fetch ?s1 = Inr (0x6005, ?s1\<lparr>PC := 0x206\<rparr>)"
    by (simp add: k hop_demo_fields fetch_def RAM_read_def SIZE_MEM_def INSTR_def)
  have e1: "execute 0x6010a0 0 0x6005 (?s1\<lparr>PC := 0x206\<rparr>) = Inr ?s2"
    by (simp add: k execute_def MSN_def LSN_def LDB_def VX_def BYTE_def Let_def)
  have r2: "reachable 0x6010a0 hop_rom ?s2"
    by (rule reachable.stepped[OF r1 f1 e1]) (simp add: transfers_def MSN_def)
  show ?thesis using r2 reachable_PC_aligned[OF r2] by blast
qed

section \<open>Memory accesses of the executor\<close>

lemma for_each_upt_Suc:
  "for_each [0..<Suc n] body s =
     (case for_each [0..<n] body s of Inl e \<Rightarrow> Inl e | Inr t \<Rightarrow> body n t)"
  by (simp add: for_each_append split: sum.splits)

lemma unreported_fault: "\<not> reported (Inl e) \<Longrightarrow> e = UndefinedBehaviour"
  by (cases e) simp_all

lemma for_each_unreported:
  assumes "\<And>j t. \<not> reported (body j t)"
  shows "\<not> reported (for_each js body s)"
proof (induction js arbitrary: s)
  case Nil
  then show ?case by simp
next
  case (Cons j js)
  then show ?case using assms[of j s] by (cases "body j s") simp_all
qed

text \<open>A loop ends in undefined behaviour when one of its rounds cannot avoid it.\<close>

lemma for_each_fault:
  assumes "j \<in> set js" and "P s"
    and "\<And>k t t'. P t \<Longrightarrow> body k t = Inr t' \<Longrightarrow> P t'"
    and "\<And>t. P t \<Longrightarrow> body j t = Inl UndefinedBehaviour"
    and "\<And>k t. \<not> reported (body k t)"
  shows "for_each js body s = Inl UndefinedBehaviour"
  using assms(1,2)
proof (induction js arbitrary: s)
  case Nil
  then show ?case by simp
next
  case (Cons k js)
  show ?case
  proof (cases "body k s")
    case (Inl e)
    then have "e = UndefinedBehaviour" using assms(5)[of k s] by (simp add: unreported_fault)
    then show ?thesis using Inl by simp
  next
    case (Inr t)
    have Pt: "P t" using assms(3)[OF Cons.prems(2) Inr] .
    show ?thesis
    proof (cases "j = k")
      case True
      then show ?thesis using assms(4)[OF Cons.prems(2)] Inr by simp
    next
      case False
      then have "j \<in> set js" using Cons.prems(1) by simp
      then show ?thesis using Cons.IH[OF _ Pt] Inr by simp
    qed
  qed
qed

lemma RAM_write_unreported: "\<not> reported (RAM_write a x s)"
  by (simp add: RAM_write_def)

lemma BCD_unreported: "\<not> reported (BCD i s)"
  by (simp add: BCD_def RAM_write_def)

lemma STA_unreported: "\<not> reported (STA i s)"
  unfolding STA_def by (rule for_each_unreported) (rule RAM_write_unreported)

lemma LDA_unreported: "\<not> reported (LDA i s)"
  unfolding LDA_def by (rule for_each_unreported) (simp add: RAM_read_def)

lemma DRW_pixel_unreported: "\<not> reported (DRW_pixel Vx Vy y p x s)"
  by (simp add: DRW_pixel_def Let_def)

lemma DRW_row_unreported: "\<not> reported (DRW_row Vx Vy y s)"
  unfolding DRW_row_def
  by (simp add: RAM_read_def for_each_unreported DRW_pixel_unreported)

lemma DRW_unreported: "\<not> reported (DRW i s)"
  unfolding DRW_def Let_def by (rule for_each_unreported) (rule DRW_row_unreported)


lemma BCD_in_range:
  assumes "unat (I s) + 2 < SIZE_MEM"
  shows "BCD i s = Inr (s\<lparr>RAM := (RAM s)
           (unat (I s) := of_nat (unat (v s (VX i)) div 100),
            unat (I s) + 1 := of_nat ((unat (v s (VX i)) div 10) mod 10),
            unat (I s) + 2 := of_nat ((unat (v s (VX i)) mod 100) mod 10))\<rparr>)"
  using assms by (simp add: BCD_def RAM_write_def)

lemma BCD_out_of_range:
  assumes "SIZE_MEM \<le> unat (I s) + 2"
  shows "BCD i s = Inl UndefinedBehaviour"
  using assms by (simp add: BCD_def RAM_write_def)

lemma STA_loop:
  assumes "unat (I s) + n \<le> SIZE_MEM"
  shows "for_each [0..<n] (\<lambda>j s. RAM_write (unat (I s) + j) (v s j) s) s =
         Inr (s\<lparr>RAM := (\<lambda>a. if unat (I s) \<le> a \<and> a < unat (I s) + n
                              then v s (a - unat (I s)) else RAM s a)\<rparr>)"
  using assms
proof (induction n)
  case 0
  have "(\<lambda>a. if unat (I s) \<le> a \<and> a < unat (I s) + 0 then v s (a - unat (I s)) else RAM s a) = RAM s"
    by (rule ext) auto
  then show ?case by simp
next
  case (Suc n)
  have "(\<lambda>a. if unat (I s) \<le> a \<and> a < unat (I s) + n then v s (a - unat (I s)) else RAM s a)
          (unat (I s) + n := v s n) =
        (\<lambda>a. if unat (I s) \<le> a \<and> a < unat (I s) + Suc n then v s (a - unat (I s)) else RAM s a)"
    by (rule ext) auto
  then show ?case using Suc by (simp add: for_each_upt_Suc RAM_write_def del: upt_Suc)
qed

lemma LDA_loop:
  assumes "unat (I s) + n \<le> SIZE_MEM"
  shows "for_each [0..<n]
           (\<lambda>j s. case RAM_read (unat (I s) + j) s of
                     Inl e \<Rightarrow> Inl e
                   | Inr x \<Rightarrow> Inr (s\<lparr>v := (v s)(j := x)\<rparr>)) s =
         Inr (s\<lparr>v := (\<lambda>j. if j < n then RAM s (unat (I s) + j) else v s j)\<rparr>)"
  using assms
proof (induction n)
  case 0
  then show ?case by simp
next
  case (Suc n)
  have "(\<lambda>j. if j < n then RAM s (unat (I s) + j) else v s j)(n := RAM s (unat (I s) + n)) =
        (\<lambda>j. if j < Suc n then RAM s (unat (I s) + j) else v s j)"
    by (rule ext) auto
  then show ?case using Suc by (simp add: for_each_upt_Suc RAM_read_def del: upt_Suc)
qed

lemma STA_in_range:
  assumes "unat (I s) + VX i < SIZE_MEM"
  shows "STA i s = Inr (s\<lparr>RAM := (\<lambda>a. if unat (I s) \<le> a \<and> a \<le> unat (I s) + VX i
                                     then v s (a - unat (I s)) else RAM s a)\<rparr>)"
proof -
  have "(\<lambda>a. if unat (I s) \<le> a \<and> a < unat (I s) + (VX i + 1) then v s (a - unat (I s)) else RAM s a) =
        (\<lambda>a. if unat (I s) \<le> a \<and> a \<le> unat (I s) + VX i then v s (a - unat (I s)) else RAM s a)"
    by (rule ext) auto
  moreover have "unat (I s) + (VX i + 1) \<le> SIZE_MEM" using assms by simp
  ultimately show ?thesis
    unfolding STA_def using STA_loop[of s "VX i + 1"] by (simp only:)
qed

lemma LDA_in_range:
  assumes "unat (I s) + VX i < SIZE_MEM"
  shows "LDA i s = Inr (s\<lparr>v := (\<lambda>j. if j \<le> VX i then RAM s (unat (I s) + j) else v s j)\<rparr>)"
proof -
  have "(\<lambda>j. if j < VX i + 1 then RAM s (unat (I s) + j) else v s j) =
        (\<lambda>j. if j \<le> VX i then RAM s (unat (I s) + j) else v s j)"
    by (rule ext) auto
  moreover have "unat (I s) + (VX i + 1) \<le> SIZE_MEM" using assms by simp
  ultimately show ?thesis
    unfolding LDA_def using LDA_loop[of s "VX i + 1"] by (simp only:)
qed

lemma STA_out_of_range:
  assumes "SIZE_MEM \<le> unat (I s) + VX i"
  shows "STA i s = Inl UndefinedBehaviour"
  unfolding STA_def
proof (rule for_each_fault[where j = "VX i" and P = "\<lambda>t. I t = I s"])
  show "VX i \<in> set [0..<VX i + 1]" by simp
  show "I s = I s" ..
  show "\<And>k t t'. I t = I s \<Longrightarrow> RAM_write (unat (I t) + k) (v t k) t = Inr t' \<Longrightarrow> I t' = I s"
    by (auto simp: RAM_write_def split: if_splits)
  show "\<And>t. I t = I s \<Longrightarrow> RAM_write (unat (I t) + VX i) (v t (VX i)) t = Inl UndefinedBehaviour"
    using assms by (simp add: RAM_write_def)
  show "\<And>k t. \<not> reported (RAM_write (unat (I t) + k) (v t k) t)"
    by (rule RAM_write_unreported)
qed

lemma LDA_out_of_range:
  assumes "SIZE_MEM \<le> unat (I s) + VX i"
  shows "LDA i s = Inl UndefinedBehaviour"
  unfolding LDA_def
proof (rule for_each_fault[where j = "VX i" and P = "\<lambda>t. I t = I s"])
  show "VX i \<in> set [0..<VX i + 1]" by simp
  show "I s = I s" ..
  show "\<And>k t t'. I t = I s \<Longrightarrow>
      (case RAM_read (unat (I t) + k) t of Inl e \<Rightarrow> Inl e | Inr x \<Rightarrow> Inr (t\<lparr>v := (v t)(k := x)\<rparr>)) = Inr t'
      \<Longrightarrow> I t' = I s"
    by (auto simp: RAM_read_def split: if_splits)
  show "\<And>t. I t = I s \<Longrightarrow>
      (case RAM_read (unat (I t) + VX i) t of Inl e \<Rightarrow> Inl e | Inr x \<Rightarrow> Inr (t\<lparr>v := (v t)(VX i := x)\<rparr>))
        = Inl UndefinedBehaviour"
    using assms by (simp add: RAM_read_def)
  show "\<And>k t. \<not> reported
      (case RAM_read (unat (I t) + k) t of Inl e \<Rightarrow> Inl e | Inr x \<Rightarrow> Inr (t\<lparr>v := (v t)(k := x)\<rparr>))"
    by (simp add: RAM_read_def)
qed

section \<open>Drawing\<close>

lemma for_each_upt_Suc_Inr:
  assumes "for_each [0..<Suc n] body s = Inr s'"
  obtains t where "for_each [0..<n] body s = Inr t" and "body n t = Inr s'"
  using assms unfolding for_each_upt_Suc by (auto split: sum.splits)

lemma DRW_pixel_Inr:
  assumes "DRW_pixel Vx Vy y p x t = Inr s'"
  shows "RAM s' = RAM t \<and> I s' = I t \<and>
         (p AND drop_bit x 0x80 = 0 \<longrightarrow> screen s' = screen t) \<and>
         (p AND drop_bit x 0x80 \<noteq> 0 \<longrightarrow>
            screen s' = (screen t)(x + unat Vx + (y + unat Vy) * WIDTH :=
                          screen t (x + unat Vx + (y + unat Vy) * WIDTH) XOR 1))"
  using assms by (auto simp: DRW_pixel_def Let_def split: if_splits)

lemma DRW_pixels_screen:
  assumes "for_each [0..<m] (DRW_pixel Vx Vy y p) s = Inr s'"
  shows "RAM s' = RAM s \<and> I s' = I s \<and>
         (\<forall>k. screen s' k =
            (if \<exists>x<m. p AND drop_bit x 0x80 \<noteq> 0 \<and> k = x + unat Vx + (y + unat Vy) * WIDTH
             then screen s k XOR 1 else screen s k))"
  using assms
proof (induction m arbitrary: s')
  case 0
  then show ?case by simp
next
  case (Suc m)
  from Suc.prems obtain t where t: "for_each [0..<m] (DRW_pixel Vx Vy y p) s = Inr t"
    and b: "DRW_pixel Vx Vy y p m t = Inr s'"
    by (rule for_each_upt_Suc_Inr)
  note ih = Suc.IH[OF t]
  note px = DRW_pixel_Inr[OF b]
  show ?case
  proof (cases "p AND drop_bit m 0x80 = 0")
    case True
    then have "screen s' = screen t" using px by blast
    moreover have "(\<exists>x<Suc m. p AND drop_bit x 0x80 \<noteq> 0 \<and> k = x + unat Vx + (y + unat Vy) * WIDTH)
       = (\<exists>x<m. p AND drop_bit x 0x80 \<noteq> 0 \<and> k = x + unat Vx + (y + unat Vy) * WIDTH)" for k
      using True less_Suc_eq by auto
    ultimately show ?thesis using ih px by simp
  next
    case False
    let ?km = "m + unat Vx + (y + unat Vy) * WIDTH"
    have sc: "screen s' = (screen t)(?km := screen t ?km XOR 1)" using px False by blast
    have "screen s' k =
            (if \<exists>x<Suc m. p AND drop_bit x 0x80 \<noteq> 0 \<and> k = x + unat Vx + (y + unat Vy) * WIDTH
             then screen s k XOR 1 else screen s k)" for k
    proof (cases "k = ?km")
      case True
      have "\<not> (\<exists>x<m. p AND drop_bit x 0x80 \<noteq> 0 \<and> ?km = x + unat Vx + (y + unat Vy) * WIDTH)"
        by auto
      then have "screen t ?km = screen s ?km" using ih by simp
      moreover have "\<exists>x<Suc m. p AND drop_bit x 0x80 \<noteq> 0 \<and> ?km = x + unat Vx + (y + unat Vy) * WIDTH"
        using False by blast
      ultimately show ?thesis using sc True by simp
    next
      case ne: False
      have "(\<exists>x<Suc m. p AND drop_bit x 0x80 \<noteq> 0 \<and> k = x + unat Vx + (y + unat Vy) * WIDTH)
       = (\<exists>x<m. p AND drop_bit x 0x80 \<noteq> 0 \<and> k = x + unat Vx + (y + unat Vy) * WIDTH)"
        using ne less_Suc_eq by auto
      moreover have "screen s' k = screen t k" using sc ne by simp
      ultimately show ?thesis using ih by simp
    qed
    then show ?thesis using ih px by simp
  qed
qed


lemma DRW_row_Inr:
  assumes "DRW_row Vx Vy y t = Inr s'"
  shows "unat (I t) + y < SIZE_MEM \<and>
         for_each [0..<8] (DRW_pixel Vx Vy y (RAM t (unat (I t) + y))) t = Inr s'"
  using assms by (auto simp: DRW_row_def RAM_read_def split: if_splits)

lemma DRW_rows_screen:
  assumes "for_each [0..<n] (DRW_row Vx Vy) s = Inr s'"
  shows "RAM s' = RAM s \<and> I s' = I s \<and>
         (\<forall>k. screen s' k =
            (if \<exists>y<n. \<exists>x<8. RAM s (unat (I s) + y) AND drop_bit x 0x80 \<noteq> 0 \<and>
                               k = x + unat Vx + (y + unat Vy) * WIDTH
             then screen s k XOR 1 else screen s k))"
  using assms
proof (induction n arbitrary: s')
  case 0
  then show ?case by simp
next
  case (Suc n)
  from Suc.prems obtain t where t: "for_each [0..<n] (DRW_row Vx Vy) s = Inr t"
    and b: "DRW_row Vx Vy n t = Inr s'"
    by (rule for_each_upt_Suc_Inr)
  note ih = Suc.IH[OF t]
  define p where "p = RAM s (unat (I s) + n)"
  have "for_each [0..<8] (DRW_pixel Vx Vy n p) t = Inr s'"
    using DRW_row_Inr[OF b] ih by (simp add: p_def)
  note row = DRW_pixels_screen[OF this]
  define old where "old k \<longleftrightarrow> (\<exists>y<n. \<exists>x<8. RAM s (unat (I s) + y) AND drop_bit x 0x80 \<noteq> 0 \<and>
                               k = x + unat Vx + (y + unat Vy) * WIDTH)" for k
  define new where "new k \<longleftrightarrow> (\<exists>x<8. p AND drop_bit x 0x80 \<noteq> 0 \<and>
                               k = x + unat Vx + (n + unat Vy) * WIDTH)" for k
  have disj: "\<not> (old k \<and> new k)" for k
    unfolding old_def new_def WIDTH_def by auto
  have both: "(\<exists>y<Suc n. \<exists>x<8. RAM s (unat (I s) + y) AND drop_bit x 0x80 \<noteq> 0 \<and>
                               k = x + unat Vx + (y + unat Vy) * WIDTH) = (old k \<or> new k)" for k
    unfolding old_def new_def p_def less_Suc_eq by auto
  have t_k: "screen t k = (if old k then screen s k XOR 1 else screen s k)" for k
    using ih unfolding old_def by simp
  have s_k: "screen s' k = (if new k then screen t k XOR 1 else screen t k)" for k
    using row unfolding new_def by simp
  have "screen s' k = (if old k \<or> new k then screen s k XOR 1 else screen s k)" for k
    using disj[of k] t_k[of k] s_k[of k] by auto
  then show ?case using ih row both by simp
qed

lemma LSN_le: "unat (LSN i) \<le> 15"
proof -
  have "LSN i \<le> 0xF" unfolding LSN_def by (rule word_and_le1)
  then have "unat (LSN i) \<le> unat (0xF :: u16)" by (simp only: word_le_nat_alt)
  then show ?thesis by simp
qed

lemma LSN_height: "unat (ucast (LSN i) :: u8) = unat (LSN i)"
proof -
  have "unat (LSN i) < 2 ^ 8" using LSN_le[of i] by simp
  then have "take_bit LENGTH(8) (unat (LSN i)) = unat (LSN i)"
    by (simp add: take_bit_nat_eq_self)
  then show ?thesis by (simp only: unsigned_ucast_eq)
qed


lemma DRW_row_I: "DRW_row Vx Vy y t = Inr t' \<Longrightarrow> I t' = I t"
  using DRW_row_Inr[of Vx Vy y t t'] DRW_pixels_screen by blast

lemma DRW_screen:
  assumes "DRW i s = Inr s'"
  shows "screen s' k =
           (if \<exists>y<unat (LSN i). \<exists>x<8. sprite_bit s y x \<and>
                  k = x + unat (v s (VX i)) + (y + unat (v s (VY i))) * WIDTH
            then screen s k XOR 1 else screen s k)"
proof -
  let ?s0 = "s\<lparr>v := (v s)(0xF := 0)\<rparr>"
  have "for_each [0..<unat (LSN i)] (DRW_row (v s (VX i)) (v s (VY i))) ?s0 = Inr s'"
    using assms by (simp add: DRW_def Let_def LSN_height)
  from DRW_rows_screen[OF this]
  have "\<forall>k. screen s' k =
     (if \<exists>y<unat (LSN i). \<exists>x<8. RAM ?s0 (unat (I ?s0) + y) AND drop_bit x 0x80 \<noteq> 0 \<and>
            k = x + unat (v s (VX i)) + (y + unat (v s (VY i))) * WIDTH
      then screen ?s0 k XOR 1 else screen ?s0 k)"
    by blast
  moreover have "RAM ?s0 = RAM s" "I ?s0 = I s" "screen ?s0 = screen s" by simp_all
  ultimately have "\<forall>k. screen s' k =
     (if \<exists>y<unat (LSN i). \<exists>x<8. RAM s (unat (I s) + y) AND drop_bit x 0x80 \<noteq> 0 \<and>
            k = x + unat (v s (VX i)) + (y + unat (v s (VY i))) * WIDTH
      then screen s k XOR 1 else screen s k)"
    by (simp only: simp_thms)
  then show ?thesis unfolding sprite_bit_def by blast
qed

lemma DRW_pixels_succeed:
  assumes "unat Vx + 8 \<le> WIDTH" and "y + unat Vy < HEIGHT"
  shows "\<exists>t'. for_each [0..<8] (DRW_pixel Vx Vy y p) t = Inr t'"
proof (rule for_each_succeeds[where P = "\<lambda>t. True"])
  show True ..
  fix x and t :: chip8 assume "x \<in> set [0..<8]"
  then have "x + unat Vx + (y + unat Vy) * WIDTH < WIDTH * HEIGHT"
    using assms by (simp add: WIDTH_def HEIGHT_def)
  then show "\<exists>t'. DRW_pixel Vx Vy y p x t = Inr t' \<and> True"
    by (simp add: DRW_pixel_def Let_def)
qed

lemma DRW_succeeds:
  assumes "unat (I s) + unat (LSN i) \<le> SIZE_MEM"
    and "unat (v s (VX i)) + 8 \<le> WIDTH"
    and "unat (v s (VY i)) + unat (LSN i) \<le> HEIGHT"
  shows "\<exists>t. DRW i s = Inr t"
  unfolding DRW_def Let_def LSN_height
proof (rule for_each_succeeds[where P = "\<lambda>t. I t = I s"])
  show "I (s\<lparr>v := (v s)(0xF := 0)\<rparr>) = I s" by simp
  fix y and t :: chip8 assume y: "y \<in> set [0..<unat (LSN i)]" and t: "I t = I s"
  have "\<exists>t'. for_each [0..<8]
          (DRW_pixel (v s (VX i)) (v s (VY i)) y (RAM t (unat (I t) + y))) t = Inr t'"
    using assms(2,3) y by (intro DRW_pixels_succeed) auto
  moreover have "unat (I t) + y < SIZE_MEM" using assms(1) y t by simp
  ultimately obtain t' where "DRW_row (v s (VX i)) (v s (VY i)) y t = Inr t'"
    by (auto simp: DRW_row_def RAM_read_def)
  then show "\<exists>t'. DRW_row (v s (VX i)) (v s (VY i)) y t = Inr t' \<and> I t' = I s"
    using DRW_row_I t by fastforce
qed

lemma DRW_out_of_range:
  assumes "0 < unat (LSN i)" and "SIZE_MEM < unat (I s) + unat (LSN i)"
  shows "DRW i s = Inl UndefinedBehaviour"
  unfolding DRW_def Let_def LSN_height
proof (rule for_each_fault[where j = "unat (LSN i) - 1" and P = "\<lambda>t. I t = I s"])
  show "unat (LSN i) - 1 \<in> set [0..<unat (LSN i)]" using assms(1) by simp
  show "I (s\<lparr>v := (v s)(0xF := 0)\<rparr>) = I s" by simp
  show "\<And>k t t'. I t = I s \<Longrightarrow> DRW_row (v s (VX i)) (v s (VY i)) k t = Inr t' \<Longrightarrow> I t' = I s"
    using DRW_row_I by fastforce
  show "\<And>t. I t = I s \<Longrightarrow>
      DRW_row (v s (VX i)) (v s (VY i)) (unat (LSN i) - 1) t = Inl UndefinedBehaviour"
    using assms by (simp add: DRW_row_def RAM_read_def)
  show "\<And>k t. \<not> reported (DRW_row (v s (VX i)) (v s (VY i)) k t)"
    by (rule DRW_row_unreported)
qed

lemma draw_demo_fields:
  "unat (I draw_demo) = 0" "unat (v draw_demo (VX 0xD015)) = 10" "unat (v draw_demo (VY 0xD015)) = 20"
  "unat (LSN 0xD015) = 5" "sprite_bit draw_demo 0 1" "\<not> sprite_bit draw_demo 0 4"
  "pixel 11 20 draw_demo = 0" "pixel 14 20 draw_demo = 0"
  by (simp_all add: draw_demo_def initialize_def Let_def CLS_def VX_def VY_def LSN_def sprite_bit_def
      pixel_def font_set_def SIZE_FS_def WIDTH_def HEIGHT_def)

text \<open>
  C3, as the code has it. The executor validates no address. The memory accesses of
  \<open>BCD\<close>, \<open>STA\<close>, \<open>LDA\<close> and \<open>DRW\<close> never end in a failure that the emulator reports (there
  is no out-of-bounds error). When the addresses lie within 0..4095 the access is made
  there: \<open>BCD\<close> writes the three digits at \<open>I\<close>, \<open>I + 1\<close>, \<open>I + 2\<close>, \<open>STA\<close> copies
  \<open>V0 .. VX\<close> to \<open>I .. I + X\<close>, \<open>LDA\<close> loads them from there, and \<open>DRW\<close> of a sprite inside
  the grid completes. Every \<open>DRW\<close> that completes has read its rows at \<open>I .. I + n - 1\<close>: the
  framebuffer entries it has toggled are exactly those that the set bits of
  \<open>RAM[I + y]\<close>, \<open>y < n\<close>, select. When an address lies beyond 4095 the access is made all
  the same, outside the array, which is undefined behaviour.
\<close>

theorem executor_memory_unchecked:
  "\<not> reported (BCD i s) \<and> \<not> reported (STA i s) \<and> \<not> reported (LDA i s) \<and>
   \<not> reported (DRW i s) \<and>
   (unat (I s) + 2 < SIZE_MEM \<longrightarrow>
      BCD i s = Inr (s\<lparr>RAM := (RAM s)
           (unat (I s) := of_nat (unat (v s (VX i)) div 100),
            unat (I s) + 1 := of_nat ((unat (v s (VX i)) div 10) mod 10),
            unat (I s) + 2 := of_nat ((unat (v s (VX i)) mod 100) mod 10))\<rparr>)) \<and>
   (unat (I s) + VX i < SIZE_MEM \<longrightarrow>
      STA i s = Inr (s\<lparr>RAM := (\<lambda>a. if unat (I s) \<le> a \<and> a \<le> unat (I s) + VX i
                                     then v s (a - unat (I s)) else RAM s a)\<rparr>) \<and>
      LDA i s = Inr (s\<lparr>v := (\<lambda>j. if j \<le> VX i then RAM s (unat (I s) + j) else v s j)\<rparr>)) \<and>
   (unat (I s) + unat (LSN i) \<le> SIZE_MEM \<and> unat (v s (VX i)) + 8 \<le> WIDTH \<and>
    unat (v s (VY i)) + unat (LSN i) \<le> HEIGHT \<longrightarrow> (\<exists>t. DRW i s = Inr t)) \<and>
   (DRW i s = Inr s' \<longrightarrow>
      (\<forall>k. screen s' k =
         (if \<exists>y<unat (LSN i). \<exists>x<8.
                RAM s (unat (I s) + y) AND drop_bit x 0x80 \<noteq> 0 \<and>
                k = x + unat (v s (VX i)) + (y + unat (v s (VY i))) * WIDTH
          then screen s k XOR 1 else screen s k))) \<and>
   (SIZE_MEM \<le> unat (I s) + 2 \<longrightarrow> BCD i s = Inl UndefinedBehaviour) \<and>
   (SIZE_MEM \<le> unat (I s) + VX i \<longrightarrow>
      STA i s = Inl UndefinedBehaviour \<and> LDA i s = Inl UndefinedBehaviour) \<and>
   (0 < unat (LSN i) \<and> SIZE_MEM < unat (I s) + unat (LSN i) \<longrightarrow>
      DRW i s = Inl UndefinedBehaviour)"
proof (intro conjI impI)
  show "\<not> reported (BCD i s)" by (rule BCD_unreported)
  show "\<not> reported (STA i s)" by (rule STA_unreported)
  show "\<not> reported (LDA i s)" by (rule LDA_unreported)
  show "\<not> reported (DRW i s)" by (rule DRW_unreported)
  show "BCD i s = Inr (s\<lparr>RAM := (RAM s)
           (unat (I s) := of_nat (unat (v s (VX i)) div 100),
            unat (I s) + 1 := of_nat ((unat (v s (VX i)) div 10) mod 10),
            unat (I s) + 2 := of_nat ((unat (v s (VX i)) mod 100) mod 10))\<rparr>)"
    if "unat (I s) + 2 < SIZE_MEM"
    using that by (rule BCD_in_range)
  show "STA i s = Inr (s\<lparr>RAM := (\<lambda>a. if unat (I s) \<le> a \<and> a \<le> unat (I s) + VX i
                                     then v s (a - unat (I s)) else RAM s a)\<rparr>)"
    if "unat (I s) + VX i < SIZE_MEM"
    using that by (rule STA_in_range)
  show "LDA i s = Inr (s\<lparr>v := (\<lambda>j. if j \<le> VX i then RAM s (unat (I s) + j) else v s j)\<rparr>)"
    if "unat (I s) + VX i < SIZE_MEM"
    using that by (rule LDA_in_range)
  show "\<exists>t. DRW i s = Inr t"
    if "unat (I s) + unat (LSN i) \<le> SIZE_MEM \<and> unat (v s (VX i)) + 8 \<le> WIDTH \<and>
        unat (v s (VY i)) + unat (LSN i) \<le> HEIGHT"
    using that by (intro DRW_succeeds) simp_all
  show "\<forall>k. screen s' k =
         (if \<exists>y<unat (LSN i). \<exists>x<8.
                RAM s (unat (I s) + y) AND drop_bit x 0x80 \<noteq> 0 \<and>
                k = x + unat (v s (VX i)) + (y + unat (v s (VY i))) * WIDTH
          then screen s k XOR 1 else screen s k)"
    if "DRW i s = Inr s'"
    using DRW_screen[OF that] unfolding sprite_bit_def by blast
  show "BCD i s = Inl UndefinedBehaviour" if "SIZE_MEM \<le> unat (I s) + 2"
    using that by (rule BCD_out_of_range)
  show "STA i s = Inl UndefinedBehaviour" if "SIZE_MEM \<le> unat (I s) + VX i"
    using that by (rule STA_out_of_range)
  show "LDA i s = Inl UndefinedBehaviour" if "SIZE_MEM \<le> unat (I s) + VX i"
    using that by (rule LDA_out_of_range)
  show "DRW i s = Inl UndefinedBehaviour"
    if "0 < unat (LSN i) \<and> SIZE_MEM < unat (I s) + unat (LSN i)"
    using that by (intro DRW_out_of_range) simp_all
qed

text \<open>
  C3 as stated fails: with \<open>I = 0xFFE\<close>, \<open>BCD\<close> writes its third digit at address 4096,
  outside the array; no failure is detected or reported.
\<close>

theorem memory_access_counterexample:
  "fault_of (BCD 0xF233 bcd_edge_demo) = Some UndefinedBehaviour \<and>
   \<not> reported (BCD 0xF233 bcd_edge_demo)"
  by (simp add: BCD_def RAM_write_def bcd_edge_demo_def boot_def SIZE_MEM_def)

theorem executor_memory_unchecked_witness:
  "unat (I bcd_demo) + 2 < SIZE_MEM \<and> SIZE_MEM \<le> unat (I bcd_edge_demo) + 2 \<and>
   unat (I bcd_demo) + VX 0xF255 < SIZE_MEM \<and> SIZE_MEM \<le> unat (I bcd_edge_demo) + VX 0xF255 \<and>
   0 < unat (LSN 0xD015) \<and> SIZE_MEM < unat (I bcd_edge_demo) + unat (LSN 0xD015) \<and>
   BCD 0xF233 bcd_demo = Inr (bcd_demo\<lparr>RAM := (RAM bcd_demo)(0x300 := 2, 0x301 := 5, 0x302 := 5)\<rparr>) \<and>
   BCD 0xF233 bcd_edge_demo = Inl UndefinedBehaviour \<and>
   fault_of (STA 0xF255 bcd_demo) = None \<and> fault_of (LDA 0xF255 bcd_demo) = None \<and>
   STA 0xF255 bcd_edge_demo = Inl UndefinedBehaviour \<and>
   LDA 0xF255 bcd_edge_demo = Inl UndefinedBehaviour \<and>
   DRW 0xD015 bcd_edge_demo = Inl UndefinedBehaviour \<and>
   unat (I draw_demo) + unat (LSN 0xD015) \<le> SIZE_MEM \<and>
   unat (v draw_demo (VX 0xD015)) + 8 \<le> WIDTH \<and>
   unat (v draw_demo (VY 0xD015)) + unat (LSN 0xD015) \<le> HEIGHT \<and>
   result_of (pixel 11 20) (DRW 0xD015 draw_demo) = Some 1 \<and>
   result_of (pixel 14 20) (DRW 0xD015 draw_demo) = Some 0"
proof -
  have h6: "unat (I draw_demo) + unat (LSN 0xD015) \<le> SIZE_MEM \<and>
      unat (v draw_demo (VX 0xD015)) + 8 \<le> WIDTH \<and>
      unat (v draw_demo (VY 0xD015)) + unat (LSN 0xD015) \<le> HEIGHT"
    by (simp add: draw_demo_fields SIZE_MEM_def WIDTH_def HEIGHT_def)
  have "unat (I draw_demo) + unat (LSN 0xD015) \<le> SIZE_MEM \<and>
      unat (v draw_demo (VX 0xD015)) + 8 \<le> WIDTH \<and>
      unat (v draw_demo (VY 0xD015)) + unat (LSN 0xD015) \<le> HEIGHT \<longrightarrow>
      (\<exists>t. DRW 0xD015 draw_demo = Inr t)"
    using executor_memory_unchecked[where i = "0xD015" and s = draw_demo and s' = draw_demo] by (elim conjE)
  then obtain d where d: "DRW 0xD015 draw_demo = Inr d" using h6 by blast
  have "DRW 0xD015 draw_demo = Inr d \<longrightarrow>
      (\<forall>k. screen d k =
         (if \<exists>y<unat (LSN 0xD015). \<exists>x<8.
                RAM draw_demo (unat (I draw_demo) + y) AND drop_bit x 0x80 \<noteq> 0 \<and>
                k = x + unat (v draw_demo (VX 0xD015)) + (y + unat (v draw_demo (VY 0xD015))) * WIDTH
          then screen draw_demo k XOR 1 else screen draw_demo k))"
    using executor_memory_unchecked[where i = "0xD015" and s = draw_demo and s' = d] by (elim conjE)
  then have blit: "screen d k =
         (if \<exists>y<5. \<exists>x<8. sprite_bit draw_demo y x \<and> k = x + 10 + (y + 20) * WIDTH
          then screen draw_demo k XOR 1 else screen draw_demo k)" for k
    using d unfolding sprite_bit_def draw_demo_fields(2,3,4) by blast
  have "\<exists>y<5. \<exists>x<8. sprite_bit draw_demo y x \<and> 11 + 20 * WIDTH = x + 10 + (y + 20) * WIDTH"
    using draw_demo_fields(5) by (intro exI[of _ 0] exI[of _ 1]) simp
  then have "screen d (11 + 20 * WIDTH) = screen draw_demo (11 + 20 * WIDTH) XOR 1"
    using blit[of "11 + 20 * WIDTH"] by (simp only: if_True)
  then have c6: "result_of (pixel 11 20) (DRW 0xD015 draw_demo) = Some 1"
    using d draw_demo_fields(7) by (simp add: pixel_def)
  have "\<not> (\<exists>y<5. \<exists>x<8. sprite_bit draw_demo y x \<and> 14 + 20 * WIDTH = x + 10 + (y + 20) * WIDTH)"
  proof
    assume "\<exists>y<5. \<exists>x<8. sprite_bit draw_demo y x \<and> 14 + 20 * WIDTH = x + 10 + (y + 20) * WIDTH"
    then obtain y x where yx: "x < 8" "sprite_bit draw_demo y x"
      "14 + 20 * WIDTH = x + 10 + (y + 20) * WIDTH" by blast
    then have "x = 4 \<and> y = 0" by (simp add: WIDTH_def) arith
    then show False using yx(2) draw_demo_fields(6) by simp
  qed
  then have "screen d (14 + 20 * WIDTH) = screen draw_demo (14 + 20 * WIDTH)"
    using blit[of "14 + 20 * WIDTH"] by (simp only: if_False)
  then have c7: "result_of (pixel 14 20) (DRW 0xD015 draw_demo) = Some 0"
    using d draw_demo_fields(8) by (simp add: pixel_def)
  note good = executor_memory_unchecked[where i = "0xF233" and s = bcd_demo and s' = bcd_demo]
  note bad = executor_memory_unchecked[where i = "0xF233" and s = bcd_edge_demo and s' = bcd_edge_demo]
  note good_block = executor_memory_unchecked[where i = "0xF255" and s = bcd_demo and s' = bcd_demo]
  note bad_block = executor_memory_unchecked[where i = "0xF255" and s = bcd_edge_demo and s' = bcd_edge_demo]
  note bad_draw = executor_memory_unchecked[where i = "0xD015" and s = bcd_edge_demo and s' = bcd_edge_demo]
  have h1: "unat (I bcd_demo) + 2 < SIZE_MEM" by (simp add: bcd_demo_def SIZE_MEM_def)
  have h2: "SIZE_MEM \<le> unat (I bcd_edge_demo) + 2" by (simp add: bcd_edge_demo_def SIZE_MEM_def)
  have h3: "unat (I bcd_demo) + VX 0xF255 < SIZE_MEM"
    by (simp add: bcd_demo_def SIZE_MEM_def VX_def)
  have h4: "SIZE_MEM \<le> unat (I bcd_edge_demo) + VX 0xF255"
    by (simp add: bcd_edge_demo_def SIZE_MEM_def VX_def)
  have h5: "0 < unat (LSN 0xD015) \<and> SIZE_MEM < unat (I bcd_edge_demo) + unat (LSN 0xD015)"
    by (simp add: bcd_edge_demo_def SIZE_MEM_def LSN_def)
  have "BCD 0xF233 bcd_demo = Inr (bcd_demo\<lparr>RAM := (RAM bcd_demo)
           (unat (I bcd_demo) := of_nat (unat (v bcd_demo (VX 0xF233)) div 100),
            unat (I bcd_demo) + 1 := of_nat ((unat (v bcd_demo (VX 0xF233)) div 10) mod 10),
            unat (I bcd_demo) + 2 := of_nat ((unat (v bcd_demo (VX 0xF233)) mod 100) mod 10))\<rparr>)"
    using good h1 by (elim conjE) (rule mp)
  moreover have "unat (I bcd_demo) = 0x300" "unat (v bcd_demo (VX 0xF233)) = 255"
    by (simp_all add: bcd_demo_def VX_def)
  ultimately have c1: "BCD 0xF233 bcd_demo =
      Inr (bcd_demo\<lparr>RAM := (RAM bcd_demo)(0x300 := 2, 0x301 := 5, 0x302 := 5)\<rparr>)"
    by simp
  have c2: "BCD 0xF233 bcd_edge_demo = Inl UndefinedBehaviour"
    using bad h2 by (elim conjE) (rule mp)
  have "\<exists>t. STA 0xF255 bcd_demo = Inr t" "\<exists>t. LDA 0xF255 bcd_demo = Inr t"
    using good_block h3 by (elim conjE, blast)+
  then have c3: "fault_of (STA 0xF255 bcd_demo) = None" "fault_of (LDA 0xF255 bcd_demo) = None"
    by auto
  have c4: "STA 0xF255 bcd_edge_demo = Inl UndefinedBehaviour"
    "LDA 0xF255 bcd_edge_demo = Inl UndefinedBehaviour"
    using bad_block h4 by (elim conjE, blast)+
  have "0 < unat (LSN 0xD015) \<and> SIZE_MEM < unat (I bcd_edge_demo) + unat (LSN 0xD015) \<longrightarrow>
          DRW 0xD015 bcd_edge_demo = Inl UndefinedBehaviour"
    using bad_draw by (elim conjE)
  then have c5: "DRW 0xD015 bcd_edge_demo = Inl UndefinedBehaviour"
    using h5 by (rule mp)
  show ?thesis using h1 h2 h3 h4 h5 h6 c1 c2 c3 c4 c5 c6 c7 by blast
qed

lemma in_grid_index:
  assumes "Vx + 8 \<le> WIDTH" and "Vy + n \<le> HEIGHT" and "y < n" and "x < (8::nat)"
  shows "(Vx + x) mod WIDTH + ((Vy + y) mod HEIGHT) * WIDTH = x + Vx + (y + Vy) * WIDTH"
  using assms by (simp add: WIDTH_def HEIGHT_def add.commute)

lemma in_grid_unique:
  assumes "x < (8::nat)" and "x' < 8"
    and "x + Vx + (y + Vy) * WIDTH = x' + Vx + (y' + Vy) * WIDTH"
  shows "x' = x \<and> y' = y"
  using assms by (simp add: WIDTH_def) arith

text \<open>
  C1, as the code has it. \<open>DRW X,Y,n\<close> toggles, for each set sprite pixel (row \<open>y\<close>, column
  \<open>x\<close>), the framebuffer entry with the linear index \<open>x + VX + (y + VY) * 64\<close>, computed
  without any wrapping, and leaves every other entry as it was. When the sprite lies
  inside the grid (\<open>VX + 8 \<le> 64\<close>, \<open>VY + n \<le> 32\<close>) and its rows inside \<open>RAM\<close>, the
  instruction completes and that entry is the pixel at column \<open>(VX + x) mod 64\<close> and row
  \<open>(VY + y) mod 32\<close>.
\<close>

theorem DRW_blits_without_wrapping:
  "(DRW i s = Inr s' \<longrightarrow>
      (\<forall>k. screen s' k =
         (if \<exists>y<unat (LSN i). \<exists>x<8. sprite_bit s y x \<and>
                 k = x + unat (v s (VX i)) + (y + unat (v s (VY i))) * WIDTH
          then screen s k XOR 1 else screen s k))) \<and>
   (unat (I s) + unat (LSN i) \<le> SIZE_MEM \<and> unat (v s (VX i)) + 8 \<le> WIDTH \<and>
    unat (v s (VY i)) + unat (LSN i) \<le> HEIGHT \<longrightarrow>
      (\<exists>t. DRW i s = Inr t \<and>
         (\<forall>y<unat (LSN i). \<forall>x<8.
            pixel ((unat (v s (VX i)) + x) mod WIDTH) ((unat (v s (VY i)) + y) mod HEIGHT) t =
              (if sprite_bit s y x
               then pixel ((unat (v s (VX i)) + x) mod WIDTH) ((unat (v s (VY i)) + y) mod HEIGHT) s XOR 1
               else pixel ((unat (v s (VX i)) + x) mod WIDTH) ((unat (v s (VY i)) + y) mod HEIGHT) s))))"
proof (intro conjI impI allI)
  fix k assume "DRW i s = Inr s'"
  then show "screen s' k =
         (if \<exists>y<unat (LSN i). \<exists>x<8. sprite_bit s y x \<and>
                 k = x + unat (v s (VX i)) + (y + unat (v s (VY i))) * WIDTH
          then screen s k XOR 1 else screen s k)"
    by (rule DRW_screen)
next
  define Vx Vy n where "Vx = unat (v s (VX i))" and "Vy = unat (v s (VY i))" and "n = unat (LSN i)"
  assume "unat (I s) + unat (LSN i) \<le> SIZE_MEM \<and> unat (v s (VX i)) + 8 \<le> WIDTH \<and>
    unat (v s (VY i)) + unat (LSN i) \<le> HEIGHT"
  then have h: "unat (I s) + unat (LSN i) \<le> SIZE_MEM" "unat (v s (VX i)) + 8 \<le> WIDTH"
    "unat (v s (VY i)) + unat (LSN i) \<le> HEIGHT" by simp_all
  from DRW_succeeds[OF h] obtain t where t: "DRW i s = Inr t" by blast
  have g: "Vx + 8 \<le> WIDTH" "Vy + n \<le> HEIGHT" using h by (simp_all add: Vx_def Vy_def n_def)
  have "pixel ((Vx + x) mod WIDTH) ((Vy + y) mod HEIGHT) t =
          (if sprite_bit s y x
           then pixel ((Vx + x) mod WIDTH) ((Vy + y) mod HEIGHT) s XOR 1
           else pixel ((Vx + x) mod WIDTH) ((Vy + y) mod HEIGHT) s)"
    if yx: "y < n" "x < 8" for y x
  proof -
    let ?k = "x + Vx + (y + Vy) * WIDTH"
    have idx: "(Vx + x) mod WIDTH + ((Vy + y) mod HEIGHT) * WIDTH = ?k"
      using g yx by (rule in_grid_index)
    have "(\<exists>y'<n. \<exists>x'<8. sprite_bit s y' x' \<and> ?k = x' + Vx + (y' + Vy) * WIDTH) = sprite_bit s y x"
      using yx in_grid_unique[of x _ Vx y Vy] by blast
    then have "screen t ?k = (if sprite_bit s y x then screen s ?k XOR 1 else screen s ?k)"
      using DRW_screen[OF t, of ?k] by (simp only: Vx_def Vy_def n_def)
    then show ?thesis unfolding pixel_def idx .
  qed
  then show "\<exists>t. DRW i s = Inr t \<and>
         (\<forall>y<unat (LSN i). \<forall>x<8.
            pixel ((unat (v s (VX i)) + x) mod WIDTH) ((unat (v s (VY i)) + y) mod HEIGHT) t =
              (if sprite_bit s y x
               then pixel ((unat (v s (VX i)) + x) mod WIDTH) ((unat (v s (VY i)) + y) mod HEIGHT) s XOR 1
               else pixel ((unat (v s (VX i)) + x) mod WIDTH) ((unat (v s (VY i)) + y) mod HEIGHT) s))"
    using t unfolding Vx_def Vy_def n_def by blast
qed

lemma upt8: "[0..<8] = [0, 1, 2, 3, 4, 5, 6, 7]"
  by (simp add: upt_rec)

lemma edge_fields:
  "v draw_edge_demo (VX 0xD011) = 62" "v draw_edge_demo (VY 0xD011) = 0"
  "unat (ucast (LSN 0xD011) :: u8) = 1" "I draw_edge_demo = 0" "RAM draw_edge_demo 0 = 0xF0"
  by (simp_all add: draw_edge_demo_def initialize_def Let_def CLS_def VX_def VY_def LSN_def
      font_set_def SIZE_FS_def)

lemma bottom_fields:
  "v draw_bottom_demo (VX 0xD011) = 0" "v draw_bottom_demo (VY 0xD011) = 32"
  "I draw_bottom_demo = 0" "RAM draw_bottom_demo 0 = 0xF0"
  by (simp_all add: draw_bottom_demo_def initialize_def Let_def CLS_def VX_def VY_def
      font_set_def SIZE_FS_def)

lemma DRW_edge_pixels:
  "result_of (pixel 0 0) (DRW 0xD011 draw_edge_demo) = Some 0 \<and>
   result_of (pixel 0 1) (DRW 0xD011 draw_edge_demo) = Some 1"
  apply (simp add: DRW_def Let_def edge_fields upt8 upt_rec[of 0 1] DRW_row_def RAM_read_def SIZE_MEM_def
      DRW_pixel_def WIDTH_def HEIGHT_def pixel_def)
  apply (simp add: draw_edge_demo_def initialize_def Let_def CLS_def WIDTH_def HEIGHT_def)
  done

lemma DRW_bottom_fault:
  "fault_of (DRW 0xD011 draw_bottom_demo) = Some UndefinedBehaviour"
  by (simp add: DRW_def Let_def bottom_fields edge_fields(3) upt8 upt_rec[of 0 1] DRW_row_def
      RAM_read_def SIZE_MEM_def DRW_pixel_def WIDTH_def HEIGHT_def)

text \<open>
  C1 as stated fails. With \<open>VX = 62\<close>, \<open>VY = 0\<close> the third pixel of the sprite row
  \<open>0xF0\<close> is to wrap to column 0 of row 0; the code leaves that pixel off and sets column
  0 of row 1. With \<open>VY = 32\<close> the row is to wrap to row 0; the code subscripts \<open>screen\<close>
  at 2048, outside the array.
\<close>

theorem DRW_wraparound_counterexample:
  "result_of (pixel 0 0) (DRW 0xD011 draw_edge_demo) = Some 0 \<and>
   result_of (pixel 0 1) (DRW 0xD011 draw_edge_demo) = Some 1 \<and>
   fault_of (DRW 0xD011 draw_bottom_demo) = Some UndefinedBehaviour"
  using DRW_edge_pixels DRW_bottom_fault by blast

lemma draw_edge_fields:
  "unat (v draw_edge_demo (VX 0xD011)) = 62" "unat (v draw_edge_demo (VY 0xD011)) = 0"
  "unat (LSN 0xD011) = 1" "sprite_bit draw_edge_demo 0 2" "screen draw_edge_demo 64 = 0"
  by (simp_all add: draw_edge_demo_def initialize_def Let_def CLS_def VX_def VY_def LSN_def
      sprite_bit_def font_set_def SIZE_FS_def WIDTH_def HEIGHT_def)

theorem DRW_blits_without_wrapping_witness:
  "unat (I draw_demo) + unat (LSN 0xD015) \<le> SIZE_MEM \<and>
   unat (v draw_demo (VX 0xD015)) + 8 \<le> WIDTH \<and>
   unat (v draw_demo (VY 0xD015)) + unat (LSN 0xD015) \<le> HEIGHT \<and>
   result_of (pixel 11 20) (DRW 0xD015 draw_demo) = Some 1 \<and>
   result_of (pixel 14 20) (DRW 0xD015 draw_demo) = Some 0 \<and>
   result_of (pixel 0 1) (DRW 0xD011 draw_edge_demo) = Some (screen draw_edge_demo 64 XOR 1)"
proof -
  obtain e where e: "DRW 0xD011 draw_edge_demo = Inr e"
    using DRW_edge_pixels by (cases "DRW 0xD011 draw_edge_demo") simp_all
  have "\<exists>y<unat (LSN 0xD011). \<exists>x<8. sprite_bit draw_edge_demo y x \<and>
          64 = x + unat (v draw_edge_demo (VX 0xD011)) + (y + unat (v draw_edge_demo (VY 0xD011))) * WIDTH"
    unfolding draw_edge_fields(1,2,3)
    using draw_edge_fields(4) by (intro exI[of _ 0] exI[of _ 2]) simp
  moreover have "\<forall>k. screen e k =
         (if \<exists>y<unat (LSN 0xD011). \<exists>x<8. sprite_bit draw_edge_demo y x \<and>
                 k = x + unat (v draw_edge_demo (VX 0xD011)) +
                     (y + unat (v draw_edge_demo (VY 0xD011))) * WIDTH
          then screen draw_edge_demo k XOR 1 else screen draw_edge_demo k)"
    using conjunct1[OF DRW_blits_without_wrapping[of "0xD011" draw_edge_demo e]] e by (rule mp)
  ultimately have "screen e 64 = screen draw_edge_demo 64 XOR 1" by simp
  then have edge: "result_of (pixel 0 1) (DRW 0xD011 draw_edge_demo) = Some (screen draw_edge_demo 64 XOR 1)"
    using e by (simp add: pixel_def WIDTH_def)
  have h: "unat (I draw_demo) + unat (LSN 0xD015) \<le> SIZE_MEM \<and>
   unat (v draw_demo (VX 0xD015)) + 8 \<le> WIDTH \<and>
   unat (v draw_demo (VY 0xD015)) + unat (LSN 0xD015) \<le> HEIGHT"
    by (simp add: draw_demo_fields SIZE_MEM_def WIDTH_def HEIGHT_def)
  from DRW_blits_without_wrapping[of "0xD015" draw_demo] h
  obtain t where t: "DRW 0xD015 draw_demo = Inr t"
    and px: "\<forall>y<unat (LSN 0xD015). \<forall>x<8.
       pixel ((unat (v draw_demo (VX 0xD015)) + x) mod WIDTH)
             ((unat (v draw_demo (VY 0xD015)) + y) mod HEIGHT) t =
         (if sprite_bit draw_demo y x
          then pixel ((unat (v draw_demo (VX 0xD015)) + x) mod WIDTH)
                     ((unat (v draw_demo (VY 0xD015)) + y) mod HEIGHT) draw_demo XOR 1
          else pixel ((unat (v draw_demo (VX 0xD015)) + x) mod WIDTH)
                     ((unat (v draw_demo (VY 0xD015)) + y) mod HEIGHT) draw_demo)"
    by blast
  have r: "(0::nat) < unat (LSN 0xD015)" "(1::nat) < 8" "(4::nat) < 8"
    by (simp_all add: draw_demo_fields)
  have m: "(10 + 1) mod WIDTH = 11" "(10 + 4) mod WIDTH = 14" "(20 + 0) mod HEIGHT = 20"
    by (simp_all add: WIDTH_def HEIGHT_def)
  have "pixel ((unat (v draw_demo (VX 0xD015)) + 1) mod WIDTH)
             ((unat (v draw_demo (VY 0xD015)) + 0) mod HEIGHT) t =
         (if sprite_bit draw_demo 0 1
          then pixel ((unat (v draw_demo (VX 0xD015)) + 1) mod WIDTH)
                     ((unat (v draw_demo (VY 0xD015)) + 0) mod HEIGHT) draw_demo XOR 1
          else pixel ((unat (v draw_demo (VX 0xD015)) + 1) mod WIDTH)
                     ((unat (v draw_demo (VY 0xD015)) + 0) mod HEIGHT) draw_demo)"
    using px r(1,2) by blast
  then have p1: "pixel 11 20 t = 1"
    unfolding draw_demo_fields(2,3) m using draw_demo_fields(5,7) by (simp only: if_True) simp
  have "pixel ((unat (v draw_demo (VX 0xD015)) + 4) mod WIDTH)
             ((unat (v draw_demo (VY 0xD015)) + 0) mod HEIGHT) t =
         (if sprite_bit draw_demo 0 4
          then pixel ((unat (v draw_demo (VX 0xD015)) + 4) mod WIDTH)
                     ((unat (v draw_demo (VY 0xD015)) + 0) mod HEIGHT) draw_demo XOR 1
          else pixel ((unat (v draw_demo (VX 0xD015)) + 4) mod WIDTH)
                     ((unat (v draw_demo (VY 0xD015)) + 0) mod HEIGHT) draw_demo)"
    using px r(1,3) by blast
  then have p2: "pixel 14 20 t = 0"
    unfolding draw_demo_fields(2,3) m using draw_demo_fields(6,8) by (simp only: if_False)
  show ?thesis using h t p1 p2 edge by simp
qed

end
